theory Spec2Isabelle
  imports Complex_Main
begin

section \<open>Conventions of the embedding\<close>

text \<open>
  The library is TypeScript over React. Where the code computes with numbers and a claim
  is about the result (the colour channels, the seed, the banner's outline), a number is
  a double with its special values and every operation rounds (type \<open>jsnum\<close>). Where
  numbers are only copied, compared or halved, they are the reals they denote. A
  JavaScript string is a \<open>string\<close> (one \<open>char\<close> per code unit, which covers the ASCII
  inputs the utilities are about). React state is a record that each handler takes and
  returns; an exception is the \<open>Inl\<close> branch of a sum.
\<close>

section \<open>utils/styles: cn\<close>

text \<open>
  \<^verbatim>\<open>cn = (...classes: (string | undefined | false | null)[]) =>
        classes.filter(Boolean).join(' ')\<close>
\<close>

datatype classArg = Str string | Undefined | FalseV | Null

text \<open>\<^verbatim>\<open>Boolean(v)\<close>: of the admitted values only a nonempty string is truthy.\<close>

fun truthy :: "classArg \<Rightarrow> bool" where
  "truthy (Str s) = (s \<noteq> [])"
| "truthy Undefined = False"
| "truthy FalseV = False"
| "truthy Null = False"

text \<open>
  \<^verbatim>\<open>Array.prototype.join\<close> turns each element into a string (\<open>undefined\<close> and
  \<open>null\<close> into the empty string) and runs one loop over the array: the separator is
  added before every element but the first.
\<close>

fun joinString :: "classArg \<Rightarrow> string" where
  "joinString (Str s) = s"
| "joinString Undefined = []"
| "joinString Null = []"
| "joinString FalseV = ''false''"

fun joinLoop :: "string \<Rightarrow> string \<Rightarrow> bool \<Rightarrow> classArg list \<Rightarrow> string" where
  "joinLoop sep R first [] = R"
| "joinLoop sep R first (x # xs) =
     joinLoop sep ((if first then R else R @ sep) @ joinString x) False xs"

definition join :: "classArg list \<Rightarrow> string \<Rightarrow> string" where
  "join xs sep = joinLoop sep [] True xs"

definition cn :: "classArg list \<Rightarrow> string" where
  "cn classes = join (filter truthy classes) '' ''"

text \<open>
  The specification's reading of \<open>cn\<close>: the truthy arguments in their order
  (\<open>keptEntries\<close>), with one space between consecutive ones (\<open>spaced\<close>).
\<close>

fun keptEntries :: "classArg list \<Rightarrow> string list" where
  "keptEntries [] = []"
| "keptEntries (Str s # xs) = (if s = [] then keptEntries xs else s # keptEntries xs)"
| "keptEntries (_ # xs) = keptEntries xs"

fun spaced :: "string list \<Rightarrow> string" where
  "spaced [] = []"
| "spaced [s] = s"
| "spaced (s # t # ts) = s @ '' '' @ spaced (t # ts)"

section \<open>JavaScript numbers\<close>

text \<open>
  A number is an IEEE 754 double: a finite value, an infinity or NaN. The sign of a zero
  is not kept; no result modelled here depends on it.
\<close>

datatype jsnum = Fin real | PosInf | NegInf | NaN

text \<open>
  The binade of a positive real \<open>a\<close>, the \<open>e\<close> with \<open>2^e \<le> a < 2^(e+1)\<close>, found by
  halving or doubling. The search stops after 1100 steps, beyond the range of the doubles
  on either side, where the result no longer matters: such a value overflows or is
  rounded on the grid of the subnormal numbers.
\<close>

fun expoUp :: "nat \<Rightarrow> real \<Rightarrow> int" where
  "expoUp 0 a = 0"
| "expoUp (Suc n) a = (if a < 2 then 0 else expoUp n (a / 2) + 1)"

fun expoDown :: "nat \<Rightarrow> real \<Rightarrow> int" where
  "expoDown 0 a = 0"
| "expoDown (Suc n) a = (if 1 \<le> a then 0 else expoDown n (a * 2) - 1)"

definition exponent :: "real \<Rightarrow> int" where
  "exponent a = (if 1 \<le> a then expoUp 1100 a else expoDown 1100 a)"

text \<open>The nearest integer, a tie going to the even one.\<close>

definition roundHalfEven :: "real \<Rightarrow> int" where
  "roundHalfEven t =
     (let f = \<lfloor>t\<rfloor>; d = t - of_int f
      in if d < 1 / 2 then f else if 1 / 2 < d then f + 1 else if even f then f else f + 1)"

text \<open>
  Rounding to nearest, ties to even, with 53 significant bits and the least exponent
  \<open>- 1022\<close> (below it the spacing stays \<open>2^(- 1074)\<close>), and the overflow of a rounded
  value that has left the finite range.
\<close>

definition roundFin :: "real \<Rightarrow> real" where
  "roundFin x =
     (if x = 0 then 0
      else (let e = max (exponent \<bar>x\<bar>) (- 1022); q = 2 powi (e - 52)
            in of_int (roundHalfEven (x / q)) * q))"

definition toDouble :: "real \<Rightarrow> jsnum" where
  "toDouble x =
     (let y = roundFin x
      in if 2 ^ 1024 \<le> y then PosInf else if y \<le> - (2 ^ 1024) then NegInf else Fin y)"

text \<open>The operators \<open>+\<close>, \<open>-\<close> and \<open>*\<close>, each rounding its exact result once.\<close>

fun numAdd :: "jsnum \<Rightarrow> jsnum \<Rightarrow> jsnum" where
  "numAdd (Fin x) (Fin y) = toDouble (x + y)"
| "numAdd NaN _ = NaN"
| "numAdd _ NaN = NaN"
| "numAdd PosInf NegInf = NaN"
| "numAdd NegInf PosInf = NaN"
| "numAdd PosInf _ = PosInf"
| "numAdd _ PosInf = PosInf"
| "numAdd NegInf _ = NegInf"
| "numAdd _ NegInf = NegInf"

fun numSub :: "jsnum \<Rightarrow> jsnum \<Rightarrow> jsnum" where
  "numSub (Fin x) (Fin y) = toDouble (x - y)"
| "numSub NaN _ = NaN"
| "numSub _ NaN = NaN"
| "numSub PosInf PosInf = NaN"
| "numSub NegInf NegInf = NaN"
| "numSub PosInf _ = PosInf"
| "numSub _ PosInf = NegInf"
| "numSub NegInf _ = NegInf"
| "numSub _ NegInf = PosInf"

fun isNegative :: "jsnum \<Rightarrow> bool" where
  "isNegative (Fin x) = (x < 0)"
| "isNegative NegInf = True"
| "isNegative _ = False"

fun numMul :: "jsnum \<Rightarrow> jsnum \<Rightarrow> jsnum" where
  "numMul (Fin x) (Fin y) = toDouble (x * y)"
| "numMul a b =
     (if a = NaN \<or> b = NaN \<or> a = Fin 0 \<or> b = Fin 0 then NaN
      else if isNegative a = isNegative b then PosInf else NegInf)"

text \<open>
  The operator \<open>/\<close> with a positive literal on the right, which is all the code
  modelled here divides by.
\<close>

fun numDivBy :: "jsnum \<Rightarrow> real \<Rightarrow> jsnum" where
  "numDivBy (Fin x) d = toDouble (x / d)"
| "numDivBy a d = a"

text \<open>
  An integer-valued number, as \<^verbatim>\<open>Math.floor\<close> returns it, and
  \<^verbatim>\<open>Math.max\<close> and \<^verbatim>\<open>Math.min\<close> of an integer literal and such a number.
\<close>

datatype jsint = IntV int | IntPosInf | IntNegInf | IntNaN

fun mathFloor :: "jsnum \<Rightarrow> jsint" where
  "mathFloor (Fin x) = IntV \<lfloor>x\<rfloor>"
| "mathFloor PosInf = IntPosInf"
| "mathFloor NegInf = IntNegInf"
| "mathFloor NaN = IntNaN"

fun mathMax :: "int \<Rightarrow> jsint \<Rightarrow> jsint" where
  "mathMax a (IntV v) = IntV (max a v)"
| "mathMax a IntPosInf = IntPosInf"
| "mathMax a IntNegInf = IntV a"
| "mathMax a IntNaN = IntNaN"

fun mathMin :: "int \<Rightarrow> jsint \<Rightarrow> jsint" where
  "mathMin a (IntV v) = IntV (min a v)"
| "mathMin a IntPosInf = IntV a"
| "mathMin a IntNegInf = IntNegInf"
| "mathMin a IntNaN = IntNaN"

section \<open>utils/styles: colorUtils\<close>

text \<open>
  \<^verbatim>\<open>darken\<close> and \<^verbatim>\<open>lighten\<close> are two copies of one body that differ in the sign
  inside \<^verbatim>\<open>factor\<close>. The built-in string operations they call come first.
\<close>

text \<open>\<^verbatim>\<open>hex.replace(/^#/, '')\<close>: one leading \<open>#\<close> is removed.\<close>

definition stripHash :: "string \<Rightarrow> string" where
  "stripHash hex = (case hex of [] \<Rightarrow> [] | c # cs \<Rightarrow> if c = CHR ''#'' then cs else hex)"

text \<open>\<^verbatim>\<open>if (hex.length === 3) hex = hex.split('').map((char) => char + char).join('')\<close>\<close>

definition expandShort :: "string \<Rightarrow> string" where
  "expandShort hex = (if length hex = 3 then concat (map (\<lambda>char. [char, char]) hex) else hex)"

text \<open>\<^verbatim>\<open>s.substring(a, b)\<close> for \<open>a \<le> b\<close>; both ends are cut at the length of \<open>s\<close>.\<close>

definition substring :: "string \<Rightarrow> nat \<Rightarrow> nat \<Rightarrow> string" where
  "substring s a b = take (b - a) (drop a s)"

definition hexDigitValue :: "char \<Rightarrow> nat option" where
  "hexDigitValue c =
     (let n = (of_char c :: nat)
      in if 48 \<le> n \<and> n \<le> 57 then Some (n - 48)
         else if 97 \<le> n \<and> n \<le> 102 then Some (n - 87)
         else if 65 \<le> n \<and> n \<le> 70 then Some (n - 55)
         else None)"

definition isWhiteSpace :: "char \<Rightarrow> bool" where
  "isWhiteSpace c = (let n = (of_char c :: nat) in (9 \<le> n \<and> n \<le> 13) \<or> n = 32 \<or> n = 160)"

text \<open>The value of the longest prefix of hexadecimal digits.\<close>

fun digitsValue :: "nat \<Rightarrow> string \<Rightarrow> nat" where
  "digitsValue acc [] = acc"
| "digitsValue acc (c # cs) =
     (case hexDigitValue c of None \<Rightarrow> acc | Some d \<Rightarrow> digitsValue (acc * 16 + d) cs)"

text \<open>
  \<^verbatim>\<open>parseInt(string, 16)\<close>: leading white space is skipped, a sign and then a prefix
  \<open>0x\<close> or \<open>0X\<close> are taken off, and the digits that follow are read up to the first
  character that is none. Without a digit the result is NaN, here \<open>None\<close>.
\<close>

definition parseInt16 :: "string \<Rightarrow> int option" where
  "parseInt16 string =
     (let S = dropWhile isWhiteSpace string;
          sign = (if S \<noteq> [] \<and> hd S = CHR ''-'' then - 1 else 1);
          S1 = (if S \<noteq> [] \<and> (hd S = CHR ''+'' \<or> hd S = CHR ''-'') then tl S else S);
          S2 = (if length S1 \<ge> 2 \<and> (take 2 S1 = ''0x'' \<or> take 2 S1 = ''0X'') then drop 2 S1 else S1)
      in if S2 = [] \<or> hexDigitValue (hd S2) = None then None
         else Some (sign * int (digitsValue 0 S2)))"

text \<open>
  The number \<^verbatim>\<open>parseInt\<close> returns: the integer read, turned into a double, or NaN.
\<close>

definition parsedNumber :: "int option \<Rightarrow> jsnum" where
  "parsedNumber v = (case v of None \<Rightarrow> NaN | Some n \<Rightarrow> toDouble (of_int n))"

text \<open>\<^verbatim>\<open>c.toString(16)\<close> of an integer-valued number.\<close>

definition hexChar :: "nat \<Rightarrow> char" where
  "hexChar n = ''0123456789abcdef'' ! n"

fun natToString16 :: "nat \<Rightarrow> string" where
  "natToString16 n =
     (if n < 16 then [hexChar n] else natToString16 (n div 16) @ [hexChar (n mod 16)])"

declare natToString16.simps [simp del]

fun toString16 :: "jsint \<Rightarrow> string" where
  "toString16 (IntV v) =
     (if v < 0 then CHR ''-'' # natToString16 (nat (- v)) else natToString16 (nat v))"
| "toString16 IntPosInf = ''Infinity''"
| "toString16 IntNegInf = ''-Infinity''"
| "toString16 IntNaN = ''NaN''"

text \<open>\<^verbatim>\<open>s.slice(-2)\<close>, and \<^verbatim>\<open>toHex = (c) => ('0' + c.toString(16)).slice(-2)\<close>.\<close>

definition sliceLast2 :: "string \<Rightarrow> string" where
  "sliceLast2 s = drop (length s - 2) s"

definition toHex :: "jsint \<Rightarrow> string" where
  "toHex c = sliceLast2 (CHR ''0'' # toString16 c)"

definition darken :: "string \<Rightarrow> jsnum \<Rightarrow> string" where
  "darken hex0 percent =
     (let hex1 = stripHash hex0;
          hex = expandShort hex1;
          r = parsedNumber (parseInt16 (substring hex 0 2));
          g = parsedNumber (parseInt16 (substring hex 2 4));
          b = parsedNumber (parseInt16 (substring hex 4 6));
          factor = numSub (Fin 1) (numDivBy percent 100);
          r' = mathMin 255 (mathMax 0 (mathFloor (numMul r factor)));
          g' = mathMin 255 (mathMax 0 (mathFloor (numMul g factor)));
          b' = mathMin 255 (mathMax 0 (mathFloor (numMul b factor)))
      in CHR ''#'' # toHex r' @ toHex g' @ toHex b')"

definition lighten :: "string \<Rightarrow> jsnum \<Rightarrow> string" where
  "lighten hex0 percent =
     (let hex1 = stripHash hex0;
          hex = expandShort hex1;
          r = parsedNumber (parseInt16 (substring hex 0 2));
          g = parsedNumber (parseInt16 (substring hex 2 4));
          b = parsedNumber (parseInt16 (substring hex 4 6));
          factor = numAdd (Fin 1) (numDivBy percent 100);
          r' = mathMin 255 (mathMax 0 (mathFloor (numMul r factor)));
          g' = mathMin 255 (mathMax 0 (mathFloor (numMul g factor)));
          b' = mathMin 255 (mathMax 0 (mathFloor (numMul b factor)))
      in CHR ''#'' # toHex r' @ toHex g' @ toHex b')"

text \<open>
  The specification's side: a hexadecimal digit, the value of a pair of digits, the three
  channel values of a 3- or 6-digit colour, the value \<open>min(255, max(0, floor(v)))\<close> of a
  number \<open>v\<close> that is not NaN, and a channel written as two lowercase hexadecimal digits.
\<close>

definition isHexDigit :: "char \<Rightarrow> bool" where
  "isHexDigit c = (hexDigitValue c \<noteq> None)"

definition hexPair :: "char \<Rightarrow> char \<Rightarrow> nat" where
  "hexPair a b = 16 * the (hexDigitValue a) + the (hexDigitValue b)"

definition specChannels :: "string \<Rightarrow> nat list" where
  "specChannels d =
     (if length d = 3 then map (\<lambda>c. hexPair c c) d
      else [hexPair (d ! 0) (d ! 1), hexPair (d ! 2) (d ! 3), hexPair (d ! 4) (d ! 5)])"

fun clampFloor :: "jsnum \<Rightarrow> nat" where
  "clampFloor (Fin v) = nat (min 255 (max 0 \<lfloor>v\<rfloor>))"
| "clampFloor PosInf = 255"
| "clampFloor NegInf = 0"
| "clampFloor NaN = 0"

definition twoHex :: "nat \<Rightarrow> string" where
  "twoHex n = [hexChar (n div 16), hexChar (n mod 16)]"

definition lowerHexDigit :: "char \<Rightarrow> bool" where
  "lowerHexDigit c = (c \<in> set ''0123456789abcdef'')"

section \<open>components/DoodlePad: the stroke state\<close>

text \<open>
  \<^verbatim>\<open>interface Stroke { points: [number, number][]; mode: 'pen' | 'eraser' }\<close>
  and the three pieces of component state
  \<^verbatim>\<open>isDrawing\<close>, \<^verbatim>\<open>strokes\<close>, \<^verbatim>\<open>mode\<close>.
\<close>

datatype penMode = Pen | Eraser

record Stroke =
  points :: "(real \<times> real) list"
  strokeMode :: penMode

record DoodlePad =
  isDrawing :: bool
  strokes :: "Stroke list"
  mode :: penMode

datatype jsError = TypeError

definition initialPad :: DoodlePad where
  "initialPad = \<lparr>isDrawing = False, strokes = [], mode = Pen\<rparr>"

definition handleMouseDown :: "real \<Rightarrow> real \<Rightarrow> DoodlePad \<Rightarrow> DoodlePad" where
  "handleMouseDown offsetX offsetY s =
     (let newStroke = \<lparr>points = [(offsetX, offsetY)], strokeMode = mode s\<rparr>
      in s\<lparr>isDrawing := True, strokes := strokes s @ [newStroke]\<rparr>)"

text \<open>
  \<^verbatim>\<open>handleMouseMove\<close> returns at once unless \<open>isDrawing\<close>. Otherwise it copies
  the list, reads \<^verbatim>\<open>newStrokes[newStrokes.length - 1]\<close>, which is \<open>undefined\<close>
  for an empty list, so that \<^verbatim>\<open>currentStroke.points\<close> throws a TypeError, and
  pushes the position onto the points of that stroke, in place. The updater is taken to
  run once per event, as React runs it in a production build.
\<close>

definition handleMouseMove :: "real \<Rightarrow> real \<Rightarrow> DoodlePad \<Rightarrow> jsError + DoodlePad" where
  "handleMouseMove offsetX offsetY s =
     (if \<not> isDrawing s then Inr s
      else
        (let newStrokes = strokes s
         in if newStrokes = [] then Inl TypeError
            else
              (let currentStroke = newStrokes ! (length newStrokes - 1)
               in Inr (s\<lparr>strokes := newStrokes[length newStrokes - 1 :=
                         currentStroke\<lparr>points := points currentStroke @ [(offsetX, offsetY)]\<rparr>]\<rparr>))))"

definition handleMouseUp :: "DoodlePad \<Rightarrow> DoodlePad" where
  "handleMouseUp s = s\<lparr>isDrawing := False\<rparr>"

definition handleMouseLeave :: "DoodlePad \<Rightarrow> DoodlePad" where
  "handleMouseLeave s = s\<lparr>isDrawing := False\<rparr>"

definition handleClear :: "DoodlePad \<Rightarrow> DoodlePad" where
  "handleClear s = s\<lparr>strokes := []\<rparr>"

definition setMode :: "penMode \<Rightarrow> DoodlePad \<Rightarrow> DoodlePad" where
  "setMode m s = s\<lparr>mode := m\<rparr>"

text \<open>The events the rendered canvas and toolbar deliver, and a run of them.\<close>

datatype padEvent =
  MouseDown real real | MouseMove real real | MouseUp | MouseLeave | Clear | SetMode penMode

fun padStep :: "DoodlePad \<Rightarrow> padEvent \<Rightarrow> jsError + DoodlePad" where
  "padStep s (MouseDown x y) = Inr (handleMouseDown x y s)"
| "padStep s (MouseMove x y) = handleMouseMove x y s"
| "padStep s MouseUp = Inr (handleMouseUp s)"
| "padStep s MouseLeave = Inr (handleMouseLeave s)"
| "padStep s Clear = Inr (handleClear s)"
| "padStep s (SetMode m) = Inr (setMode m s)"

fun padRun :: "DoodlePad \<Rightarrow> padEvent list \<Rightarrow> jsError + DoodlePad" where
  "padRun s [] = Inr s"
| "padRun s (e # es) = (case padStep s e of Inl err \<Rightarrow> Inl err | Inr s' \<Rightarrow> padRun s' es)"

text \<open>The invariant the drawing pad is said to keep.\<close>

definition padInv :: "DoodlePad \<Rightarrow> bool" where
  "padInv s \<longleftrightarrow> list_all (\<lambda>st. points st \<noteq> []) (strokes s) \<and> (isDrawing s \<longrightarrow> strokes s \<noteq> [])"

section \<open>context/ThemeContext\<close>

text \<open>\<^verbatim>\<open>type Theme = 'light' | 'dark'\<close>, and the string each value is at run time.\<close>

datatype Theme = Light | Dark

fun themeString :: "Theme \<Rightarrow> string" where
  "themeString Light = ''light''"
| "themeString Dark = ''dark''"

text \<open>
  What a mounted \<^verbatim>\<open>FeebyThemeProvider\<close> reads and writes: its \<^verbatim>\<open>theme\<close> state,
  whether \<^verbatim>\<open>typeof window !== 'undefined'\<close>, and \<^verbatim>\<open>localStorage\<close>
  (\<^verbatim>\<open>getItem\<close> of an absent key is \<open>null\<close>, here \<open>None\<close>).
\<close>

record ThemeWorld =
  theme :: Theme
  hasWindow :: bool
  localStorage :: "string \<rightharpoonup> string"

text \<open>\<^verbatim>\<open>useState<Theme>(defaultTheme)\<close> on the first render.\<close>

definition initialWorld :: "Theme \<Rightarrow> bool \<Rightarrow> (string \<rightharpoonup> string) \<Rightarrow> ThemeWorld" where
  "initialWorld defaultTheme win ls = \<lparr>theme = defaultTheme, hasWindow = win, localStorage = ls\<rparr>"

text \<open>The effect that loads the theme from \<^verbatim>\<open>localStorage\<close> on mount.\<close>

definition loadEffect :: "string \<Rightarrow> ThemeWorld \<Rightarrow> ThemeWorld" where
  "loadEffect storageKey w =
     (if hasWindow w then
        (case localStorage w storageKey of
           None \<Rightarrow> w
         | Some stored \<Rightarrow>
             if stored = ''light'' then w\<lparr>theme := Light\<rparr>
             else if stored = ''dark'' then w\<lparr>theme := Dark\<rparr>
             else w)
      else w)"

definition mountProvider :: "Theme \<Rightarrow> string \<Rightarrow> bool \<Rightarrow> (string \<rightharpoonup> string) \<Rightarrow> ThemeWorld" where
  "mountProvider defaultTheme storageKey win ls =
     loadEffect storageKey (initialWorld defaultTheme win ls)"

definition setTheme :: "string \<Rightarrow> Theme \<Rightarrow> ThemeWorld \<Rightarrow> ThemeWorld" where
  "setTheme storageKey newTheme w =
     (let w' = w\<lparr>theme := newTheme\<rparr>
      in if hasWindow w'
         then w'\<lparr>localStorage := (localStorage w')(storageKey \<mapsto> themeString newTheme)\<rparr>
         else w')"

text \<open>
  \<^verbatim>\<open>toggleTheme\<close> reads the \<^verbatim>\<open>theme\<close> of the render that created it
  (\<open>rendered\<close>), which is the current state unless it is called again before the next render.
\<close>

definition toggleTheme :: "string \<Rightarrow> Theme \<Rightarrow> ThemeWorld \<Rightarrow> ThemeWorld" where
  "toggleTheme storageKey rendered w =
     setTheme storageKey (if rendered = Light then Dark else Light) w"

text \<open>
  \<^verbatim>\<open>ThemeContextType\<close>: the theme and the two callbacks, which act on some state \<open>'w\<close>.
  The context holds \<open>None\<close> (\<open>undefined\<close>) outside every provider.
\<close>

record 'w ThemeContextType =
  ctxTheme :: Theme
  ctxSetTheme :: "Theme \<Rightarrow> 'w \<Rightarrow> 'w"
  ctxToggleTheme :: "'w \<Rightarrow> 'w"

definition providerValue :: "string \<Rightarrow> ThemeWorld \<Rightarrow> ThemeWorld ThemeContextType" where
  "providerValue storageKey w =
     \<lparr>ctxTheme = theme w, ctxSetTheme = setTheme storageKey,
      ctxToggleTheme = toggleTheme storageKey (theme w)\<rparr>"

definition useFeebyTheme :: "'w ThemeContextType option \<Rightarrow> 'w ThemeContextType" where
  "useFeebyTheme context =
     (case context of
        None \<Rightarrow> \<lparr>ctxTheme = Light, ctxSetTheme = (\<lambda>_ w. w), ctxToggleTheme = (\<lambda>w. w)\<rparr>
      | Some c \<Rightarrow> c)"

text \<open>
  A call made through the context value of the current render, and a run of calls with a
  render after each.
\<close>

datatype themeCall = SetTheme Theme | ToggleTheme

fun themeStep :: "string \<Rightarrow> ThemeWorld \<Rightarrow> themeCall \<Rightarrow> ThemeWorld" where
  "themeStep storageKey w (SetTheme t) = ctxSetTheme (providerValue storageKey w) t w"
| "themeStep storageKey w ToggleTheme = ctxToggleTheme (providerValue storageKey w) w"

fun themeRun :: "string \<Rightarrow> ThemeWorld \<Rightarrow> themeCall list \<Rightarrow> ThemeWorld" where
  "themeRun storageKey w [] = w"
| "themeRun storageKey w (c # cs) = themeRun storageKey (themeStep storageKey w c) cs"

section \<open>The jitter seed and its interval timer\<close>

text \<open>
  The components that hold a \<^verbatim>\<open>seed\<close> state. All but two share one effect:
  \<^verbatim>\<open>
  useEffect(() => {
    if (isBouncy) {
      const interval = setInterval(() => { setSeed((prevSeed) => prevSeed + 1); }, 150);
      return () => clearInterval(interval);
    }
  }, [isBouncy]);
  \<close>
  \<^verbatim>\<open>PinnedNote\<close> has no \<^verbatim>\<open>isBouncy\<close> prop and sets the interval without a test
  (dependencies \<^verbatim>\<open>[]\<close>); \<^verbatim>\<open>RippedBanner\<close> keeps
  \<^verbatim>\<open>const [seed] = useState(Math.random())\<close> without a setter or a timer and only
  passes \<^verbatim>\<open>isBouncy\<close> on to its two tapes.
\<close>

datatype component =
  Tape | SketchyRectangle | StickyTape | StickyNote | BinderPaper | ThumbTack
  | PaperAirplane | BulletinBoard | FoldedCorner | PinnedNote | RippedBanner

fun exposesBouncy :: "component \<Rightarrow> bool" where
  "exposesBouncy PinnedNote = False"
| "exposesBouncy _ = True"

text \<open>The default of the \<^verbatim>\<open>isBouncy\<close> prop in each component's parameter list.\<close>

fun defaultBouncy :: "component \<Rightarrow> bool" where
  "defaultBouncy BinderPaper = True"
| "defaultBouncy PaperAirplane = True"
| "defaultBouncy BulletinBoard = True"
| "defaultBouncy _ = False"

text \<open>
  A prop that is left out (or \<open>undefined\<close>) takes the default. \<^verbatim>\<open>PinnedNote\<close>
  has no such prop, and the value plays no part in its effect.
\<close>

definition resolveBouncy :: "component \<Rightarrow> bool option \<Rightarrow> bool" where
  "resolveBouncy c prop = (case prop of None \<Rightarrow> defaultBouncy c | Some b \<Rightarrow> b)"

record SeedState =
  seed :: jsnum
  interval :: bool
  isBouncy :: bool

text \<open>The period of every seed timer, in milliseconds.\<close>

definition intervalMs :: nat where
  "intervalMs = 150"

text \<open>\<^verbatim>\<open>useState(0)\<close>, and \<^verbatim>\<open>useState(Math.random())\<close> with draw \<open>r\<close> in the banner.\<close>

fun initialSeed :: "component \<Rightarrow> jsnum \<Rightarrow> jsnum" where
  "initialSeed RippedBanner r = r"
| "initialSeed _ r = Fin 0"

text \<open>The body of the seed effect: whether it registers the interval.\<close>

fun seedEffect :: "component \<Rightarrow> SeedState \<Rightarrow> SeedState" where
  "seedEffect PinnedNote s = s\<lparr>interval := True\<rparr>"
| "seedEffect RippedBanner s = s"
| "seedEffect _ s = (if isBouncy s then s\<lparr>interval := True\<rparr> else s)"

text \<open>The effect's cleanup, \<^verbatim>\<open>clearInterval(interval)\<close>.\<close>

definition cleanupEffect :: "SeedState \<Rightarrow> SeedState" where
  "cleanupEffect s = s\<lparr>interval := False\<rparr>"

definition mountSeed :: "component \<Rightarrow> bool option \<Rightarrow> jsnum \<Rightarrow> SeedState" where
  "mountSeed c prop r =
     seedEffect c \<lparr>seed = initialSeed c r, interval = False, isBouncy = resolveBouncy c prop\<rparr>"

text \<open>
  A render with a new prop value: the effect is run again (after its cleanup) when its
  dependency \<^verbatim>\<open>isBouncy\<close> has changed; \<^verbatim>\<open>PinnedNote\<close>'s dependency list is empty.
\<close>

definition rerender :: "component \<Rightarrow> bool option \<Rightarrow> SeedState \<Rightarrow> SeedState" where
  "rerender c prop s =
     (let b = resolveBouncy c prop
      in if c = PinnedNote \<or> b = isBouncy s then s\<lparr>isBouncy := b\<rparr>
         else seedEffect c ((cleanupEffect s)\<lparr>isBouncy := b\<rparr>))"

text \<open>
  One period of the timer: the callback \<^verbatim>\<open>setSeed((prevSeed) => prevSeed + 1)\<close> is
  called only while an interval is registered.
\<close>

definition tick :: "SeedState \<Rightarrow> SeedState" where
  "tick s = (if interval s then s\<lparr>seed := numAdd (seed s) (Fin 1)\<rparr> else s)"

fun ticks :: "nat \<Rightarrow> SeedState \<Rightarrow> SeedState" where
  "ticks 0 s = s"
| "ticks (Suc n) s = ticks n (tick s)"

text \<open>
  What happens to a mounted component: a period of the timer passes, or it is rendered
  again with a value of the prop (left out, or given). A run of such events, the last
  prop value of a run, and whether a run ever asks for the animation.
\<close>

datatype seedEvent = Tick | Render "bool option"

fun seedStep :: "component \<Rightarrow> SeedState \<Rightarrow> seedEvent \<Rightarrow> SeedState" where
  "seedStep c s Tick = tick s"
| "seedStep c s (Render prop) = rerender c prop s"

fun seedRun :: "component \<Rightarrow> SeedState \<Rightarrow> seedEvent list \<Rightarrow> SeedState" where
  "seedRun c s [] = s"
| "seedRun c s (e # es) = seedRun c (seedStep c s e) es"

fun lastProp :: "bool option \<Rightarrow> seedEvent list \<Rightarrow> bool option" where
  "lastProp prop [] = prop"
| "lastProp prop (Tick # es) = lastProp prop es"
| "lastProp prop (Render q # es) = lastProp q es"

fun anyBouncy :: "component \<Rightarrow> seedEvent list \<Rightarrow> bool" where
  "anyBouncy c [] = False"
| "anyBouncy c (Tick # es) = anyBouncy c es"
| "anyBouncy c (Render q # es) = (resolveBouncy c q \<or> anyBouncy c es)"

text \<open>When an interval is registered, in terms of the component and its current prop.\<close>

definition seedInv :: "component \<Rightarrow> SeedState \<Rightarrow> bool" where
  "seedInv c s \<longleftrightarrow> (interval s \<longleftrightarrow> c = PinnedNote \<or> (c \<noteq> RippedBanner \<and> isBouncy s))"

text \<open>The state of a component mounted with a prop value and then taken through a run.\<close>

definition afterRun :: "component \<Rightarrow> bool option \<Rightarrow> jsnum \<Rightarrow> seedEvent list \<Rightarrow> SeedState" where
  "afterRun c prop r es = seedRun c (mountSeed c prop r) es"

text \<open>
  A seed that counts: one of the integers from 0 to \<open>2^53\<close>. Adding one to such a seed
  as the doubles do: \<open>2^53 + 1\<close> is not a double and rounds back to \<open>2^53\<close>.
\<close>

fun countSeed :: "jsnum \<Rightarrow> bool" where
  "countSeed (Fin x) = (0 \<le> x \<and> x \<le> 2 ^ 53 \<and> of_int \<lfloor>x\<rfloor> = x)"
| "countSeed _ = False"

fun plusOne :: "jsnum \<Rightarrow> jsnum" where
  "plusOne (Fin x) = Fin (if x < 2 ^ 53 then x + 1 else x)"
| "plusOne v = v"

section \<open>SVG paths handed to the sketch renderer\<close>

text \<open>
  The components build a path string from a template and pass it to the renderer's
  \<^verbatim>\<open>rc.path\<close>. The string is kept here as the list of its commands, each with the
  numbers the template interpolates, in the order they are written. The type of the
  numbers is a parameter: reals, or doubles where the coordinates are computed.
\<close>

datatype 'n pathCmd =
  MoveTo 'n 'n
  | LineTo 'n 'n
  | CurveTo 'n 'n 'n 'n 'n 'n
  | ArcTo 'n 'n 'n bool bool 'n 'n
  | ClosePath

text \<open>The point a command ends at, and the two radii of an arc.\<close>

fun cmdEnd :: "'n pathCmd \<Rightarrow> ('n \<times> 'n) option" where
  "cmdEnd (MoveTo px py) = Some (px, py)"
| "cmdEnd (LineTo px py) = Some (px, py)"
| "cmdEnd (CurveTo _ _ _ _ px py) = Some (px, py)"
| "cmdEnd (ArcTo _ _ _ _ _ px py) = Some (px, py)"
| "cmdEnd ClosePath = None"

fun isCurveTo :: "'n pathCmd \<Rightarrow> bool" where
  "isCurveTo (CurveTo _ _ _ _ _ _) = True"
| "isCurveTo _ = False"

fun isLineTo :: "'n pathCmd \<Rightarrow> bool" where
  "isLineTo (LineTo _ _) = True"
| "isLineTo _ = False"


subsection \<open>components/SketchyRectangle\<close>


subsection \<open>components/JourneyLine\<close>

record Point =
  ptX :: real
  ptY :: real

text \<open>
  \<^verbatim>\<open>Math.random()\<close> is a sequence of draws \<open>random 0, random 1, ...\<close>; \<open>k\<close> counts
  the calls made so far. One pass of the loop
  \<^verbatim>\<open>for (let i = 1; i < points.length; i++)\<close> makes three calls, in the order
  \<^verbatim>\<open>verticalRandomness\<close>, \<^verbatim>\<open>ctrlX1\<close>, \<^verbatim>\<open>ctrlX2\<close>.
\<close>

function journeyLoop :: "Point list \<Rightarrow> (nat \<Rightarrow> real) \<Rightarrow> nat \<Rightarrow> nat \<Rightarrow> real pathCmd list" where
  "journeyLoop pts random k i =
     (if i < length pts then
        (let start = pts ! (i - 1);
             endPt = pts ! i;
             dx = ptX endPt - ptX start;
             dy = ptY endPt - ptY start;
             direction = (if i mod 2 = 0 then 1 else - 1);
             verticalRandomness =
               (if i = 1 then random k * 100 + 50 else (random k - 0.5) * 200);
             ctrlX1 = ptX start + dx * 0.25 + direction * (random (k + 1) * 200 + 150);
             ctrlY1 = ptY start + dy * 0.5 + verticalRandomness;
             ctrlX2 = ptX endPt - dx * 0.25 - direction * (random (k + 2) * 200 + 150);
             ctrlY2 = ptY endPt - dy * 0.5 - verticalRandomness
         in CurveTo ctrlX1 ctrlY1 ctrlX2 ctrlY2 (ptX endPt) (ptY endPt)
              # journeyLoop pts random (k + 3) (i + 1))
      else [])"
  by pat_completeness auto
termination
  by (relation "measure (\<lambda>(pts, random, k, i). length pts - i)") auto

declare journeyLoop.simps [simp del]

text \<open>
  The path of the effect's body. The body runs only with more than one point and its loop
  starts at \<open>i = 1\<close>, so \<^verbatim>\<open>points[0]\<close>, \<^verbatim>\<open>points[i - 1]\<close> and
  \<^verbatim>\<open>points[i]\<close> are all in range where they are read.
\<close>

definition journeyPath :: "Point list \<Rightarrow> (nat \<Rightarrow> real) \<Rightarrow> real pathCmd list" where
  "journeyPath pts random =
     MoveTo (ptX (pts ! 0)) (ptY (pts ! 0)) # journeyLoop pts random 0 1"

text \<open>
  The SVG element behind \<^verbatim>\<open>svgRef\<close> is the list of its children (\<open>None\<close> while the
  ref is \<open>null\<close>). A child is a node the renderer returned for a path and its options, or
  some other node. The effect returns the element afterwards together with the paths it
  handed to \<^verbatim>\<open>rc.path\<close>.
\<close>

record RoughOptions =
  optStroke :: string
  optStrokeWidth :: real
  optRoughness :: real
  optStrokeLineDash :: "real list"

datatype svgNode = RoughPath "real pathCmd list" RoughOptions | OtherNode nat

definition journeyLineEffect ::
  "svgNode list option \<Rightarrow> Point list \<Rightarrow> Theme \<Rightarrow> real \<Rightarrow> real \<Rightarrow> (nat \<Rightarrow> real)
    \<Rightarrow> svgNode list option \<times> real pathCmd list list" where
  "journeyLineEffect svgRef pts uiTheme strokeW rough random =
     (case svgRef of
        None \<Rightarrow> (None, [])
      | Some children \<Rightarrow>
          if length pts > 1 then
            (let strokeColor = (if uiTheme = Dark then ''white'' else ''black'');
                 path = journeyPath pts random;
                 line = RoughPath path
                   \<lparr>optStroke = strokeColor, optStrokeWidth = strokeW, optRoughness = rough,
                    optStrokeLineDash = [10, 8]\<rparr>
             in (Some [line], [path]))
          else (Some children, []))"

subsection \<open>components/RippedBanner\<close>

definition jaggedness :: real where
  "jaggedness = 8"

definition segmentCount :: nat where
  "segmentCount = 6"

text \<open>
  The loop of \<^verbatim>\<open>jaggedLine\<close>, \<^verbatim>\<open>for (let i = 1; i <= segmentCount; i++)\<close>, with
  the passes still to run as its last argument; each pass draws twice, for x and then y.
  Every operator rounds: \<^verbatim>\<open>px = x1 + dx * i\<close> twice, the jitter
  \<^verbatim>\<open>(Math.random() - 0.5) * jaggedness\<close> twice, and their sum once more.
\<close>

fun jaggedLoop ::
  "(nat \<Rightarrow> jsnum) \<Rightarrow> nat \<Rightarrow> jsnum \<Rightarrow> jsnum \<Rightarrow> jsnum \<Rightarrow> jsnum \<Rightarrow> nat \<Rightarrow> nat \<Rightarrow> jsnum pathCmd list" where
  "jaggedLoop random k x1 y1 dx dy i 0 = []"
| "jaggedLoop random k x1 y1 dx dy i (Suc n) =
     (let px = numAdd x1 (numMul dx (Fin (real i)));
          py = numAdd y1 (numMul dy (Fin (real i)))
      in LineTo (numAdd px (numMul (numSub (random k) (Fin 0.5)) (Fin jaggedness)))
                (numAdd py (numMul (numSub (random (k + 1)) (Fin 0.5)) (Fin jaggedness)))
           # jaggedLoop random (k + 2) x1 y1 dx dy (i + 1) n)"

definition jaggedLine ::
  "(nat \<Rightarrow> jsnum) \<Rightarrow> nat \<Rightarrow> jsnum \<Rightarrow> jsnum \<Rightarrow> jsnum \<Rightarrow> jsnum \<Rightarrow> jsnum pathCmd list" where
  "jaggedLine random k x1 y1 x2 y2 =
     (let dx = numDivBy (numSub x2 x1) (real segmentCount);
          dy = numDivBy (numSub y2 y1) (real segmentCount)
      in jaggedLoop random k x1 y1 dx dy 1 segmentCount)"

text \<open>
  The banner's outline: the template evaluates its interpolations left to right, so the
  start point takes draws 0 and 1 and each side the next \<open>2 * segmentCount\<close>.
\<close>

definition rippedBannerPath :: "(nat \<Rightarrow> jsnum) \<Rightarrow> jsnum \<Rightarrow> jsnum \<Rightarrow> jsnum pathCmd list" where
  "rippedBannerPath random width height =
     MoveTo (numMul (numSub (random 0) (Fin 0.5)) (Fin jaggedness))
            (numMul (numSub (random 1) (Fin 0.5)) (Fin jaggedness))
       # jaggedLine random 2 (Fin 0) (Fin 0) width (Fin 0)
       @ jaggedLine random (2 + 2 * segmentCount) width (Fin 0) width height
       @ jaggedLine random (2 + 4 * segmentCount) width height (Fin 0) height
       @ jaggedLine random (2 + 6 * segmentCount) (Fin 0) height (Fin 0) (Fin 0)"

text \<open>A draw of \<^verbatim>\<open>Math.random()\<close>: a finite number in \<open>[0, 1)\<close>.\<close>

fun unitDraw :: "jsnum \<Rightarrow> bool" where
  "unitDraw (Fin r) = (0 \<le> r \<and> r < 1)"
| "unitDraw _ = False"

text \<open>
  The ideal outline the specification compares with: vertex \<open>j\<close> (from 1 to 6) of side
  \<open>s\<close> (top, right, bottom, left) on the boundary of the width-by-height rectangle.
  A vertex is within \<open>d\<close> of a point when both its coordinates are finite and neither
  differs by more than \<open>d\<close>.
\<close>

definition idealVertex :: "real \<Rightarrow> real \<Rightarrow> nat \<Rightarrow> nat \<Rightarrow> real \<times> real" where
  "idealVertex width height s j =
     (if s = 0 then (width * real j / 6, 0)
      else if s = 1 then (width, height * real j / 6)
      else if s = 2 then (width - width * real j / 6, height)
      else (0, height - height * real j / 6))"

fun withinDist :: "real \<Rightarrow> (jsnum \<times> jsnum) option \<Rightarrow> real \<times> real \<Rightarrow> bool" where
  "withinDist d (Some (Fin vx, Fin vy)) p = (\<bar>vx - fst p\<bar> \<le> d \<and> \<bar>vy - snd p\<bar> \<le> d)"
| "withinDist d _ p = False"

definition onBoundary :: "real \<Rightarrow> real \<Rightarrow> real \<times> real \<Rightarrow> bool" where
  "onBoundary width height p =
     (((fst p = 0 \<or> fst p = width) \<and> 0 \<le> snd p \<and> snd p \<le> height)
      \<or> ((snd p = 0 \<or> snd p = height) \<and> 0 \<le> fst p \<and> fst p \<le> width))"

section \<open>Properties\<close>

subsection \<open>cn\<close>

lemma joinLoop_rest:
  "joinLoop sep R False (map Str ss) = R @ concat (map (\<lambda>s. sep @ s) ss)"
  by (induction ss arbitrary: R) simp_all

lemma spaced_Cons: "spaced (s # ss) = s @ concat (map (\<lambda>t. '' '' @ t) ss)"
  by (induction ss arbitrary: s) simp_all

lemma join_spaced: "join (map Str ss) '' '' = spaced ss"
proof (cases ss)
  case Nil
  then show ?thesis by (simp add: join_def)
next
  case (Cons s ts)
  then show ?thesis by (simp add: join_def joinLoop_rest spaced_Cons)
qed

lemma filter_truthy_kept: "filter truthy classes = map Str (keptEntries classes)"
  by (induction classes rule: keptEntries.induct) simp_all

text \<open>
  C7. \<open>cn\<close> returns the truthy arguments, in their original order, with a single space
  between consecutive kept entries; with no truthy argument that is the empty string.
  As a function of its argument list it gives equal results on equal lists.
\<close>

theorem cn_joins_truthy: "cn classes = spaced (keptEntries classes)"
  by (simp add: cn_def filter_truthy_kept join_spaced)

theorem cn_joins_truthy_witness:
  "cn [Str ''base'', FalseV, Str [], Undefined, Str ''on'', Null] = ''base on''
   \<and> cn [FalseV, Null, Str [], Undefined] = []"
  using cn_joins_truthy [of "[Str ''base'', FalseV, Str [], Undefined, Str ''on'', Null]"]
    cn_joins_truthy [of "[FalseV, Null, Str [], Undefined]"]
  by simp

subsection \<open>DoodlePad\<close>

text \<open>
  C4. A mouse-down appends exactly one stroke at the end of the list, with the selected
  tool as its mode and the event position as its only point, and keeps the earlier
  strokes; the clear action empties the list.
\<close>

theorem mouseDown_appends_clear_resets:
  "strokes (handleMouseDown x y s) = strokes s @ [\<lparr>points = [(x, y)], strokeMode = mode s\<rparr>]
   \<and> strokes (handleClear s) = []"
  by (simp add: handleMouseDown_def handleClear_def)

lemma padInv_mouseDown: "padInv s \<Longrightarrow> padInv (handleMouseDown x y s)"
  by (simp add: padInv_def handleMouseDown_def)

lemma padInv_mouseMove: "padInv s \<Longrightarrow> handleMouseMove x y s = Inr s' \<Longrightarrow> padInv s'"
  by (auto simp: padInv_def handleMouseMove_def Let_def list_all_length nth_list_update
      split: if_splits)

lemma padInv_mouseUp: "padInv s \<Longrightarrow> padInv (handleMouseUp s)"
  by (simp add: padInv_def handleMouseUp_def)

lemma padInv_mouseLeave: "padInv s \<Longrightarrow> padInv (handleMouseLeave s)"
  by (simp add: padInv_def handleMouseLeave_def)

lemma padInv_setMode: "padInv s \<Longrightarrow> padInv (setMode m s)"
  by (simp add: padInv_def setMode_def)

lemma update_last: "xs \<noteq> [] \<Longrightarrow> xs[length xs - Suc 0 := v] = butlast xs @ [v]"
  by (induction xs rule: rev_induct) simp_all

lemma mouseMove_while_inv:
  assumes "padInv s" and "isDrawing s"
  shows "handleMouseMove x y s =
           Inr (s\<lparr>strokes := butlast (strokes s) @
                  [(last (strokes s))\<lparr>points := points (last (strokes s)) @ [(x, y)]\<rparr>]\<rparr>)"
proof -
  from assms have ne: "strokes s \<noteq> []" by (simp add: padInv_def)
  then have "strokes s ! (length (strokes s) - 1) = last (strokes s)"
    by (simp add: last_conv_nth)
  with ne assms(2) show ?thesis
    by (simp add: handleMouseMove_def Let_def update_last)
qed

lemma padInv_initial: "padInv initialPad"
  by (simp add: padInv_def initialPad_def)

lemma clear_breaks_padInv: "isDrawing s \<Longrightarrow> \<not> padInv (handleClear s)"
  by (simp add: padInv_def handleClear_def)

lemma move_after_clear_fails: "isDrawing s \<Longrightarrow> handleMouseMove x y (handleClear s) = Inl TypeError"
  by (simp add: handleMouseMove_def handleClear_def Let_def)

text \<open>
  C9. The invariant (every stroke has a point, and a stroke exists whenever \<open>isDrawing\<close>)
  is not kept by the clear action: after a mouse-down the pad is drawing with one stroke,
  clear empties the list and leaves \<open>isDrawing\<close> set, and the next mouse-move reads the
  last stroke of an empty list and throws.
\<close>

theorem clear_while_drawing_breaks_move:
  "padRun initialPad [MouseDown 1 1] = Inr \<lparr>isDrawing = True,
       strokes = [\<lparr>points = [(1, 1)], strokeMode = Pen\<rparr>], mode = Pen\<rparr>
   \<and> padRun initialPad [MouseDown 1 1, Clear] = Inr \<lparr>isDrawing = True, strokes = [], mode = Pen\<rparr>
   \<and> padRun initialPad [MouseDown 1 1, Clear, MouseMove 2 2] = Inl TypeError"
  by (simp add: initialPad_def handleMouseDown_def handleClear_def handleMouseMove_def)

subsection \<open>Theme context\<close>

lemma themeStep_window: "hasWindow (themeStep k w c) = hasWindow w"
  by (cases c) (simp_all add: providerValue_def toggleTheme_def setTheme_def Let_def)

lemma themeStep_mirror:
  "hasWindow w \<Longrightarrow> localStorage (themeStep k w c) k = Some (themeString (theme (themeStep k w c)))"
  by (cases c) (simp_all add: providerValue_def toggleTheme_def setTheme_def Let_def)

lemma themeRun_mirror:
  "hasWindow w \<Longrightarrow> cs \<noteq> [] \<Longrightarrow>
     localStorage (themeRun k w cs) k = Some (themeString (theme (themeRun k w cs)))"
proof (induction cs arbitrary: w)
  case Nil
  then show ?case by simp
next
  case (Cons c cs)
  show ?case
  proof (cases cs)
    case Nil
    with Cons.prems show ?thesis by (simp add: themeStep_mirror)
  next
    case (Cons c' cs')
    with Cons.IH [of "themeStep k w c"] Cons.prems show ?thesis
      by (simp add: themeStep_window)
  qed
qed

text \<open>
  C2. The theme is one of the two values; in a browser, after a \<open>setTheme\<close> or a
  \<open>toggleTheme\<close> call, alone or at the end of any run of such calls, the entry under
  \<open>storageKey\<close> is the string of the current theme;
  on mount a stored \<open>'light'\<close> or \<open>'dark'\<close> is adopted and anything else (or no entry)
  leaves the default theme.
\<close>

theorem theme_mirror_in_sync:
  assumes "hasWindow w"
  shows "(themeString (theme w) = ''light'' \<or> themeString (theme w) = ''dark'')
    \<and> localStorage (setTheme k t w) k = Some (themeString (theme (setTheme k t w)))
    \<and> localStorage (toggleTheme k r w) k = Some (themeString (theme (toggleTheme k r w)))
    \<and> localStorage (themeStep k w c) k = Some (themeString (theme (themeStep k w c)))
    \<and> (cs \<noteq> [] \<longrightarrow>
         localStorage (themeRun k w cs) k = Some (themeString (theme (themeRun k w cs))))
    \<and> theme (mountProvider d k win ls) =
        (if win \<and> ls k = Some ''light'' then Light
         else if win \<and> ls k = Some ''dark'' then Dark else d)"
proof -
  have 1: "themeString (theme w) = ''light'' \<or> themeString (theme w) = ''dark''"
    by (cases "theme w") simp_all
  have 2: "localStorage (setTheme k t' w) k = Some (themeString (theme (setTheme k t' w)))" for t'
    using assms by (simp add: setTheme_def Let_def)
  have 3: "localStorage (toggleTheme k r' w) k = Some (themeString (theme (toggleTheme k r' w)))"
    for r'
    unfolding toggleTheme_def by (rule 2)
  have 4: "localStorage (themeStep k w c) k = Some (themeString (theme (themeStep k w c)))"
    by (cases c) (simp_all add: providerValue_def 2 3)
  have 5: "theme (mountProvider d k win ls) =
        (if win \<and> ls k = Some ''light'' then Light
         else if win \<and> ls k = Some ''dark'' then Dark else d)"
    by (simp add: mountProvider_def loadEffect_def initialWorld_def split: option.splits)
  have 6: "cs \<noteq> [] \<longrightarrow>
      localStorage (themeRun k w cs) k = Some (themeString (theme (themeRun k w cs)))"
    using assms by (simp add: themeRun_mirror)
  from 1 2 3 4 5 6 show ?thesis by blast
qed

theorem theme_mirror_in_sync_witness:
  "hasWindow (mountProvider Light ''feeby-theme'' True (Map.empty(''feeby-theme'' \<mapsto> ''dark'')))
   \<and> theme (mountProvider Light ''feeby-theme'' True (Map.empty(''feeby-theme'' \<mapsto> ''dark''))) = Dark
   \<and> theme (mountProvider Light ''feeby-theme'' True (Map.empty(''feeby-theme'' \<mapsto> ''blue''))) = Light
   \<and> localStorage (toggleTheme ''feeby-theme'' Dark
        (mountProvider Light ''feeby-theme'' True (Map.empty(''feeby-theme'' \<mapsto> ''dark''))))
        ''feeby-theme'' = Some ''light''"
proof -
  let ?w = "mountProvider Light ''feeby-theme'' True (Map.empty(''feeby-theme'' \<mapsto> ''dark''))"
  have h: "hasWindow ?w"
    by (simp add: mountProvider_def loadEffect_def initialWorld_def)
  have t: "theme (toggleTheme ''feeby-theme'' Dark ?w) = Light"
    by (simp add: toggleTheme_def setTheme_def Let_def)
  from theme_mirror_in_sync [OF h, of "''feeby-theme''" Light Dark ToggleTheme "[ToggleTheme]" Light True
      "Map.empty(''feeby-theme'' \<mapsto> ''blue'')"] h t
  show ?thesis
    by (simp add: mountProvider_def loadEffect_def initialWorld_def)
qed

text \<open>
  C8. Outside every provider the hook returns a value (it has no failing branch): the
  theme \<open>'light'\<close> and two callbacks that leave any state as it is.
\<close>

theorem useFeebyTheme_without_provider:
  "ctxTheme (useFeebyTheme None) = Light
   \<and> ctxSetTheme (useFeebyTheme None) t w = w
   \<and> ctxToggleTheme (useFeebyTheme None) w = w"
  by (simp add: useFeebyTheme_def)

subsection \<open>SketchyRectangle\<close>



subsection \<open>JourneyLine\<close>

lemma journeyLoop_ends:
  "map cmdEnd (journeyLoop pts random k i) = map (\<lambda>p. Some (ptX p, ptY p)) (drop i pts)"
proof (induction pts random k i rule: journeyLoop.induct)
  case (1 pts random k i)
  show ?case
  proof (cases "i < length pts")
    case True
    then have "drop i pts = pts ! i # drop (i + 1) pts"
      by (simp add: Cons_nth_drop_Suc)
    with True 1 show ?thesis
      by (subst journeyLoop.simps) (simp add: Let_def)
  next
    case False
    then show ?thesis by (subst journeyLoop.simps) simp
  qed
qed

lemma journeyLoop_curves: "list_all isCurveTo (journeyLoop pts random k i)"
proof (induction pts random k i rule: journeyLoop.induct)
  case (1 pts random k i)
  then show ?case
    by (subst journeyLoop.simps) (simp add: Let_def)
qed

lemma length_journeyLoop: "length (journeyLoop pts random k i) = length pts - i"
  using arg_cong [OF journeyLoop_ends, of length pts random k i] by simp

text \<open>
  C5. With two or more points the path is a move to the first point followed by one cubic
  segment per further point, segment \<open>i\<close> ending at point \<open>i\<close>, and the effect replaces
  the element's children by the one node rendered from that path. With fewer than two
  points nothing is handed to the renderer and the element is left as it was.
\<close>

theorem journeyLine_path_visits_points:
  "(2 \<le> length pts \<longrightarrow>
      hd (journeyPath pts random) = MoveTo (ptX (pts ! 0)) (ptY (pts ! 0))
      \<and> length (tl (journeyPath pts random)) = length pts - 1
      \<and> list_all isCurveTo (tl (journeyPath pts random))
      \<and> (\<forall>i. 1 \<le> i \<and> i < length pts \<longrightarrow>
            cmdEnd (journeyPath pts random ! i) = Some (ptX (pts ! i), ptY (pts ! i)))
      \<and> journeyLineEffect (Some children) pts uiTheme sw ro random =
          (Some [RoughPath (journeyPath pts random)
                  \<lparr>optStroke = (if uiTheme = Dark then ''white'' else ''black''),
                   optStrokeWidth = sw, optRoughness = ro, optStrokeLineDash = [10, 8]\<rparr>],
           [journeyPath pts random]))
   \<and> (length pts < 2 \<longrightarrow> journeyLineEffect svgRef pts uiTheme sw ro random = (svgRef, []))"
proof -
  have ends: "cmdEnd (journeyPath pts random ! i) = Some (ptX (pts ! i), ptY (pts ! i))"
    if "1 \<le> i" "i < length pts" for i
  proof -
    from that obtain j where j: "i = Suc j" by (cases i) simp_all
    with that have "j < length (journeyLoop pts random 0 1)"
      by (simp add: length_journeyLoop)
    then have "cmdEnd (journeyLoop pts random 0 1 ! j) = map cmdEnd (journeyLoop pts random 0 1) ! j"
      by simp
    also have "\<dots> = Some (ptX (pts ! i), ptY (pts ! i))"
      using that j by (simp add: journeyLoop_ends)
    finally show ?thesis by (simp add: journeyPath_def j)
  qed
  have small: "journeyLineEffect svgRef pts uiTheme sw ro random = (svgRef, [])" if "length pts < 2"
    using that by (cases svgRef) (simp_all add: journeyLineEffect_def)
  show ?thesis
    using ends small
    by (simp add: journeyPath_def length_journeyLoop journeyLoop_curves journeyLineEffect_def Let_def)
qed

theorem journeyLine_path_visits_points_witness:
  "2 \<le> length [\<lparr>ptX = 0, ptY = 0\<rparr>, \<lparr>ptX = 100, ptY = 40\<rparr>, \<lparr>ptX = 200, ptY = 0\<rparr>]
   \<and> journeyPath [\<lparr>ptX = 0, ptY = 0\<rparr>, \<lparr>ptX = 100, ptY = 40\<rparr>, \<lparr>ptX = 200, ptY = 0\<rparr>] (\<lambda>k. 1 / 2) =
       [MoveTo 0 0, CurveTo (- 225) 120 325 (- 80) 100 40, CurveTo 375 20 (- 75) 20 200 0]
   \<and> length [\<lparr>ptX = 5, ptY = 5\<rparr>] < 2
   \<and> journeyLineEffect (Some [OtherNode 0]) [\<lparr>ptX = 5, ptY = 5\<rparr>] Light 2 2.5 (\<lambda>k. 1 / 2) =
       (Some [OtherNode 0], [])"
  using journeyLine_path_visits_points
      [of "[\<lparr>ptX = 0, ptY = 0\<rparr>, \<lparr>ptX = 100, ptY = 40\<rparr>, \<lparr>ptX = 200, ptY = 0\<rparr>]" "\<lambda>k. 1 / 2"]
    journeyLine_path_visits_points
      [where pts = "[\<lparr>ptX = 5, ptY = 5\<rparr>]" and random = "\<lambda>k. 1 / 2" and uiTheme = Light
        and sw = 2 and ro = "2.5" and svgRef = "Some [OtherNode 0]"]
  by (simp add: journeyPath_def journeyLoop.simps Let_def)

subsection \<open>JavaScript numbers\<close>

lemma expoUp_lower: "1 \<le> a \<Longrightarrow> 2 powi (expoUp n a) \<le> a"
proof (induction n arbitrary: a)
  case 0
  then show ?case by simp
next
  case (Suc n)
  show ?case
  proof (cases "a < 2")
    case True
    with Suc.prems show ?thesis by simp
  next
    case False
    then have "1 \<le> a / 2" by simp
    from Suc.IH [OF this] have "2 powi (expoUp n (a / 2)) * 2 \<le> a" by simp
    with False show ?thesis by (simp add: power_int_add)
  qed
qed

lemma expoUp_upper: "a < 2 ^ (n + 1) \<Longrightarrow> a < 2 powi (expoUp n a + 1)"
proof (induction n arbitrary: a)
  case 0
  then show ?case by simp
next
  case (Suc n)
  show ?case
  proof (cases "a < 2")
    case True
    then show ?thesis by simp
  next
    case False
    from Suc.prems have "a / 2 < 2 ^ (n + 1)" by simp
    from Suc.IH [OF this] have "a < 2 powi (expoUp n (a / 2) + 1) * 2" by simp
    with False show ?thesis by (simp add: power_int_add)
  qed
qed

lemma expoDown_lower: "0 < a \<Longrightarrow> expoDown n a = - int n \<or> 2 powi (expoDown n a) \<le> a"
proof (induction n arbitrary: a)
  case 0
  then show ?case by simp
next
  case (Suc n)
  show ?case
  proof (cases "1 \<le> a")
    case True
    then show ?thesis by simp
  next
    case False
    from Suc.prems have "0 < a * 2" by simp
    from Suc.IH [OF this] False show ?thesis
      by (auto simp: power_int_diff)
  qed
qed

lemma expoDown_upper: "a < 2 \<Longrightarrow> a < 2 powi (expoDown n a + 1)"
proof (induction n arbitrary: a)
  case 0
  then show ?case by simp
next
  case (Suc n)
  show ?case
  proof (cases "1 \<le> a")
    case True
    with Suc.prems show ?thesis by simp
  next
    case False
    then have "a * 2 < 2" by simp
    from Suc.IH [OF this] have "a * 2 < 2 powi (expoDown n (a * 2) + 1)" .
    with False show ?thesis by (simp add: power_int_diff power_int_add)
  qed
qed

lemma expoUp_nonneg: "0 \<le> expoUp n a"
proof (induction n arbitrary: a)
  case 0
  then show ?case by simp
next
  case (Suc n)
  from Suc [of "a / 2"] show ?case by simp
qed

lemma exponent_lower:
  assumes "0 < a" and "- 1022 < exponent a"
  shows "2 powi (exponent a) \<le> a"
proof (cases "1 \<le> a")
  case True
  then show ?thesis by (simp add: exponent_def expoUp_lower)
next
  case False
  with assms(2) have "expoDown 1100 a \<noteq> - int 1100" by (simp add: exponent_def)
  with expoDown_lower [OF assms(1), of 1100] False show ?thesis
    by (simp add: exponent_def)
qed

lemma roundHalfEven_near: "\<bar>of_int (roundHalfEven t) - t\<bar> \<le> 1 / 2"
  unfolding roundHalfEven_def Let_def by (simp add: abs_le_iff)

lemma roundHalfEven_of_int [simp]: "roundHalfEven (of_int n) = n"
  by (simp add: roundHalfEven_def)

text \<open>The error of one rounding.\<close>

lemma roundFin_error: "\<bar>roundFin x - x\<bar> \<le> \<bar>x\<bar> / 2 ^ 53 + 1 / 2 ^ 1075"
proof (cases "x = 0")
  case True
  then show ?thesis by (simp add: roundFin_def)
next
  case False
  define e where "e = max (exponent \<bar>x\<bar>) (- 1022)"
  define q :: real where "q = 2 powi (e - 52)"
  have qpos: "0 < q" by (simp add: q_def)
  have r: "roundFin x = of_int (roundHalfEven (x / q)) * q"
    using False by (simp add: roundFin_def e_def q_def Let_def)
  have "roundFin x - x = (of_int (roundHalfEven (x / q)) - x / q) * q"
    using qpos by (simp add: r left_diff_distrib)
  then have "\<bar>roundFin x - x\<bar> = \<bar>of_int (roundHalfEven (x / q)) - x / q\<bar> * q"
    using qpos by (simp add: abs_mult)
  also have "\<dots> \<le> (1 / 2) * q"
    using qpos roundHalfEven_near [of "x / q"] by (intro mult_right_mono) simp_all
  finally have half: "\<bar>roundFin x - x\<bar> \<le> q / 2" by simp
  have "q / 2 \<le> \<bar>x\<bar> / 2 ^ 53 + 1 / 2 ^ 1075"
  proof (cases "- 1022 < exponent \<bar>x\<bar>")
    case True
    then have e: "e = exponent \<bar>x\<bar>" by (simp add: e_def)
    from exponent_lower [OF _ True] False have "2 powi e \<le> \<bar>x\<bar>" by (simp add: e)
    moreover have "q = 2 powi e / 2 ^ 52" by (simp add: q_def power_int_diff)
    ultimately have "q / 2 \<le> \<bar>x\<bar> / 2 ^ 53" by simp
    then show ?thesis by simp
  next
    case False
    then have "e = - 1022" by (simp add: e_def)
    then have "q / 2 = 1 / 2 ^ 1075" by (simp add: q_def power_int_minus_divide)
    then show ?thesis by simp
  qed
  with half show ?thesis by linarith
qed

text \<open>A value on the grid of its binade is not changed.\<close>

lemma roundFin_exact:
  assumes "x \<noteq> 0" and "x / 2 powi (max (exponent \<bar>x\<bar>) (- 1022) - 52) = of_int m"
  shows "roundFin x = x"
proof -
  define q :: real where "q = 2 powi (max (exponent \<bar>x\<bar>) (- 1022) - 52)"
  have q0: "q \<noteq> 0" by (simp add: q_def)
  from assms(2) have xq: "x / q = of_int m" by (simp only: q_def)
  have "roundFin x = of_int (roundHalfEven (x / q)) * q"
    using assms(1) by (simp add: roundFin_def Let_def q_def)
  also have "\<dots> = x / q * q" by (simp only: xq roundHalfEven_of_int)
  also have "\<dots> = x" using q0 by simp
  finally show ?thesis .
qed

lemma roundFin_int:
  assumes "\<bar>n\<bar> \<le> 2 ^ 53"
  shows "roundFin (of_int n) = of_int n"
proof (cases "n = 0")
  case True
  then show ?thesis by (simp add: roundFin_def)
next
  case False
  define a :: real where "a = of_int \<bar>n\<bar>"
  have ax: "\<bar>of_int n\<bar> = a" by (simp add: a_def)
  from False have a1: "1 \<le> a" unfolding a_def by linarith
  define e where "e = exponent a"
  have e0: "0 \<le> e" using a1 by (simp add: e_def exponent_def expoUp_nonneg)
  have lo: "2 powi e \<le> a" using a1 by (simp add: e_def exponent_def expoUp_lower)
  have "a \<le> of_int (2 ^ 53)" unfolding a_def using assms by (simp only: of_int_le_iff)
  then have hi: "a \<le> 2 powi 53" by simp
  from lo hi have "(2::real) powi e \<le> 2 powi 53" by (rule order_trans)
  then have e53: "e \<le> 53" by (rule power_int_le_imp_le_exp [rotated]) simp_all
  have mx: "max (exponent \<bar>of_int n\<bar>) (- 1022) = e" using e0 by (simp add: ax e_def)
  have nz: "(of_int n :: real) \<noteq> 0" using False by simp
  show ?thesis
  proof (cases "e \<le> 52")
    case True
    then obtain k where k: "52 - e = int k" using nonneg_int_cases [of "52 - e"] by auto
    have "of_int n / 2 powi (e - 52) = (of_int n * 2 powi (52 - e) :: real)"
      by (simp add: power_int_diff field_simps)
    also have "\<dots> = of_int (n * 2 ^ k)" by (simp add: k)
    finally have "of_int n / 2 powi (max (exponent \<bar>of_int n\<bar>) (- 1022) - 52) = real_of_int (n * 2 ^ k)"
      by (simp only: mx)
    with nz show ?thesis by (rule roundFin_exact)
  next
    case False
    with e53 have e: "e = 53" by simp
    from lo hi have "a = 2 powi 53" by (simp add: e)
    then have "real_of_int \<bar>n\<bar> = real_of_int (2 ^ 53)" by (simp add: a_def)
    then have "\<bar>n\<bar> = 2 ^ 53" by (simp only: of_int_eq_iff)
    then have "even \<bar>n\<bar>" by simp
    then have "even n" by simp
    then obtain h where h: "n = 2 * h" by (elim evenE)
    have "of_int n / 2 powi (max (exponent \<bar>of_int n\<bar>) (- 1022) - 52) = real_of_int h"
      by (simp only: mx e) (simp add: h)
    with nz show ?thesis by (rule roundFin_exact)
  qed
qed

lemma powi_less_cancel: "(2::real) powi m < 2 powi n \<Longrightarrow> m < n"
proof (rule ccontr)
  assume lt: "(2::real) powi m < 2 powi n" and "\<not> m < n"
  then have "n \<le> m" by simp
  then have "(2::real) powi n \<le> 2 powi m" by (intro power_int_increasing) simp_all
  with lt show False by simp
qed

lemma exponent_eq:
  assumes lo: "2 powi e \<le> a" and hi: "a < 2 powi (e + 1)" and e: "- 1022 \<le> e" "e \<le> 1099"
  shows "exponent a = e"
proof -
  have apos: "0 < a" using lo by (rule less_le_trans [rotated]) simp
  have up: "a < 2 powi (exponent a + 1)"
  proof (cases "1 \<le> a")
    case True
    from e(2) have "(2::real) powi (e + 1) \<le> 2 powi 1101" by (intro power_int_increasing) simp_all
    with hi have "a < 2 ^ (1100 + 1)" by simp
    from expoUp_upper [OF this] True show ?thesis by (simp add: exponent_def)
  next
    case False
    then have "a < 2" by simp
    from expoDown_upper [OF this] False show ?thesis by (simp add: exponent_def)
  qed
  from lo up have "(2::real) powi e < 2 powi (exponent a + 1)" by (rule le_less_trans)
  then have 1: "e < exponent a + 1" by (rule powi_less_cancel)
  with e(1) have "- 1022 < exponent a \<or> exponent a = - 1022 \<and> e = - 1022" by linarith
  then have "2 powi (exponent a) \<le> a"
  proof
    assume "- 1022 < exponent a"
    with apos show ?thesis by (rule exponent_lower)
  next
    assume "exponent a = - 1022 \<and> e = - 1022"
    with lo show ?thesis by simp
  qed
  from this hi have "(2::real) powi (exponent a) < 2 powi (e + 1)" by (rule le_less_trans)
  then have "exponent a < e + 1" by (rule powi_less_cancel)
  with 1 show ?thesis by simp
qed

text \<open>Rounding a value whose binade is known.\<close>

lemma roundFin_at:
  assumes "2 powi e \<le> \<bar>x\<bar>" and "\<bar>x\<bar> < 2 powi (e + 1)" and "- 1022 \<le> e" "e \<le> 1099"
  shows "roundFin x = of_int (roundHalfEven (x / 2 powi (e - 52))) * 2 powi (e - 52)"
proof -
  have "(0::real) < 2 powi e" by simp
  with assms(1) have "0 < \<bar>x\<bar>" by linarith
  then have "x \<noteq> 0" by simp
  moreover have "exponent \<bar>x\<bar> = e" using assms by (rule exponent_eq)
  ultimately show ?thesis using assms(3) by (simp add: roundFin_def Let_def)
qed

lemma toDouble_fin:
  assumes "\<bar>x\<bar> \<le> 2 ^ 1023"
  shows "toDouble x = Fin (roundFin x)"
proof -
  from roundFin_error [of x] have "\<bar>roundFin x\<bar> \<le> \<bar>x\<bar> + \<bar>x\<bar> / 2 ^ 53 + 1 / 2 ^ 1075"
    by linarith
  also have "\<dots> \<le> 2 ^ 1023 + 2 ^ 1023 / 2 ^ 53 + 1 / 2 ^ 1075"
    using assms by (intro add_mono divide_right_mono) simp_all
  also have "\<dots> < 2 ^ 1024" by simp
  finally have "\<bar>roundFin x\<bar> < 2 ^ 1024" .
  then show ?thesis by (simp add: toDouble_def Let_def abs_less_iff)
qed

lemma roundFin_error_simple: "\<bar>roundFin x - x\<bar> \<le> (\<bar>x\<bar> + 1) / 2 ^ 53"
proof -
  have "(1::real) / 2 ^ 1075 \<le> 1 / 2 ^ 53" by simp
  with roundFin_error [of x] show ?thesis by (simp add: add_divide_distrib)
qed

lemma toDouble_not_NaN [simp]: "toDouble x \<noteq> NaN"
  by (simp add: toDouble_def Let_def)

lemma toDouble_int: "\<bar>n\<bar> \<le> 2 ^ 53 \<Longrightarrow> toDouble (of_int n) = Fin (of_int n)"
proof -
  assume n: "\<bar>n\<bar> \<le> 2 ^ 53"
  then have "real_of_int \<bar>n\<bar> \<le> real_of_int (2 ^ 53)" by (simp only: of_int_le_iff)
  then have "\<bar>real_of_int n\<bar> \<le> 2 ^ 1023" by simp
  then show ?thesis by (simp add: toDouble_fin roundFin_int [OF n])
qed

lemma toDouble_nat: "k \<le> 2 ^ 53 \<Longrightarrow> toDouble (real k) = Fin (real k)"
  using toDouble_int [of "int k"] by simp

subsection \<open>colorUtils\<close>

lemma hexDigit_plain:
  assumes "isHexDigit c"
  shows "\<not> isWhiteSpace c" "c \<noteq> CHR ''-''" "c \<noteq> CHR ''+''" "c \<noteq> CHR ''x''" "c \<noteq> CHR ''X''"
    "hexDigitValue c = Some (the (hexDigitValue c))" "the (hexDigitValue c) < 16"
  using assms
  by (auto simp: isHexDigit_def hexDigitValue_def isWhiteSpace_def Let_def split: if_splits)

lemma parseInt16_pair:
  assumes "isHexDigit a" "isHexDigit b"
  shows "parseInt16 [a, b] = Some (int (hexPair a b))"
proof -
  from assms obtain va vb where v: "hexDigitValue a = Some va" "hexDigitValue b = Some vb"
    by (auto simp: isHexDigit_def)
  then have "digitsValue 0 [a, b] = hexPair a b"
    by (simp add: hexPair_def)
  with v hexDigit_plain(1-3) [OF assms(1)] hexDigit_plain(4,5) [OF assms(2)]
  show ?thesis
    by (simp add: parseInt16_def Let_def)
qed

lemma hexPair_le: "isHexDigit a \<Longrightarrow> isHexDigit b \<Longrightarrow> hexPair a b \<le> 255"
  using hexDigit_plain(7) [of a] hexDigit_plain(7) [of b] by (simp add: hexPair_def)

lemma parsedNumber_pair:
  assumes "isHexDigit a" "isHexDigit b"
  shows "parsedNumber (parseInt16 [a, b]) = Fin (real (hexPair a b))"
proof -
  from hexPair_le [OF assms] have "\<bar>int (hexPair a b)\<bar> \<le> 2 ^ 53" by simp
  from toDouble_int [OF this] show ?thesis
    by (simp add: parsedNumber_def parseInt16_pair [OF assms])
qed

lemma natToString16_small: "n < 16 \<Longrightarrow> natToString16 n = [hexChar n]"
  by (simp add: natToString16.simps)

lemma toHex_twoHex:
  assumes "0 \<le> v" "v \<le> 255"
  shows "toHex (IntV v) = twoHex (nat v)"
proof (cases "nat v < 16")
  case True
  then have "nat v div 16 = 0" by simp
  with True assms show ?thesis
    by (simp add: toHex_def sliceLast2_def twoHex_def natToString16_small hexChar_def)
next
  case False
  from assms have "nat v div 16 < 16" by simp
  with False assms show ?thesis
    by (simp add: toHex_def sliceLast2_def twoHex_def natToString16_small
        natToString16.simps [of "nat v"])
qed

lemma toHex_clamp:
  "v \<noteq> NaN \<Longrightarrow> toHex (mathMin 255 (mathMax 0 (mathFloor v))) = twoHex (clampFloor v)"
  by (cases v) (simp_all add: toHex_twoHex)

lemma toHex_NaN: "toHex IntNaN = ''aN''"
  by (simp add: toHex_def sliceLast2_def)

lemma clampFloor_le: "clampFloor v \<le> 255"
  by (cases v) simp_all

lemma hexChar_lower: "n < 16 \<Longrightarrow> lowerHexDigit (hexChar n)"
  unfolding lowerHexDigit_def hexChar_def by (rule nth_mem) simp

lemma twoHex_lower: "n \<le> 255 \<Longrightarrow> list_all lowerHexDigit (twoHex n)"
  by (simp add: twoHex_def hexChar_lower)

lemma hash_no_digit: "\<not> isHexDigit CHR ''#''"
  by (simp add: isHexDigit_def hexDigitValue_def)

lemma stripHash_digits:
  assumes "list_all isHexDigit d" "hex = d \<or> hex = CHR ''#'' # d"
  shows "stripHash hex = d"
  using assms hash_no_digit by (cases d) (auto simp: stripHash_def)

lemma channels_parsed:
  assumes "list_all isHexDigit d" "length d = 3 \<or> length d = 6"
  shows "map (\<lambda>(a, b). parsedNumber (parseInt16 (substring (expandShort d) a b)))
           [(0, 2), (2, 4), (4, 6)]
         = map (\<lambda>c. Fin (real c)) (specChannels d)"
  using assms(2)
proof
  assume "length d = 3"
  then obtain a b c where d: "d = [a, b, c]"
    by (auto simp: numeral_eq_Suc length_Suc_conv)
  with assms(1) show ?thesis
    by (simp add: expandShort_def substring_def specChannels_def parsedNumber_pair)
next
  assume "length d = 6"
  then obtain a b c e f g where d: "d = [a, b, c, e, f, g]"
    by (auto simp: numeral_eq_Suc length_Suc_conv)
  with assms(1) show ?thesis
    by (simp add: expandShort_def substring_def specChannels_def parsedNumber_pair)
qed

lemma length_specChannels: "length d = 3 \<or> length d = 6 \<Longrightarrow> length (specChannels d) = 3"
  by (auto simp: specChannels_def)

text \<open>The factor of a finite percent is finite.\<close>

lemma percent_fraction_finite:
  assumes "\<bar>p\<bar> < 2 ^ 1024"
  shows "\<exists>y. numDivBy (Fin p) 100 = Fin y \<and> \<bar>y\<bar> \<le> 2 ^ 1020"
proof -
  have a: "\<bar>p / 100\<bar> \<le> 2 ^ 1018" using assms by simp
  then have "\<bar>p / 100\<bar> \<le> 2 ^ 1023" by simp
  then have fin: "numDivBy (Fin p) 100 = Fin (roundFin (p / 100))" by (simp add: toDouble_fin)
  from roundFin_error_simple [of "p / 100"]
  have "\<bar>roundFin (p / 100)\<bar> \<le> \<bar>p / 100\<bar> + (\<bar>p / 100\<bar> + 1) / 2 ^ 53" by linarith
  also have "\<dots> \<le> 2 ^ 1018 + (2 ^ 1018 + 1) / 2 ^ 53"
    using a by (intro add_mono divide_right_mono) simp_all
  also have "\<dots> \<le> 2 ^ 1020" by simp
  finally show ?thesis using fin by blast
qed

lemma factor_finite:
  assumes "\<bar>p\<bar> < 2 ^ 1024"
  shows "\<exists>f. numSub (Fin 1) (numDivBy (Fin p) 100) = Fin f"
    and "\<exists>f. numAdd (Fin 1) (numDivBy (Fin p) 100) = Fin f"
proof -
  from percent_fraction_finite [OF assms] obtain y
    where y: "toDouble (p / 100) = Fin y" "\<bar>y\<bar> \<le> 2 ^ 1020" by auto
  from y(2) have "\<bar>1 - y\<bar> \<le> 2 ^ 1023" "\<bar>1 + y\<bar> \<le> 2 ^ 1023" by simp_all
  then show "\<exists>f. numSub (Fin 1) (numDivBy (Fin p) 100) = Fin f"
    and "\<exists>f. numAdd (Fin 1) (numDivBy (Fin p) 100) = Fin f"
    by (simp_all add: y(1) toDouble_fin)
qed

lemma shade_format:
  assumes "length d = 3 \<or> length d = 6"
  shows "length (CHR ''#'' # concat (map (\<lambda>c. twoHex (clampFloor (g c))) (specChannels d))) = 7
     \<and> list_all lowerHexDigit (concat (map (\<lambda>c. twoHex (clampFloor (g c))) (specChannels d)))"
proof -
  from length_specChannels [OF assms] obtain cr cg cb where ch: "specChannels d = [cr, cg, cb]"
    by (auto simp: numeral_eq_Suc length_Suc_conv)
  show ?thesis
    by (simp add: ch twoHex_lower clampFloor_le) (simp add: twoHex_def)
qed

text \<open>
  C3. For every 3- or 6-digit hex input, with or without the leading \<open>#\<close>, and every
  finite percent \<open>p\<close>, \<^verbatim>\<open>darken\<close> and \<^verbatim>\<open>lighten\<close> return \<open>#\<close> followed by the
  three channels in two lowercase hex digits each. A channel is
  \<open>min(255, max(0, floor v))\<close> of the double \<open>v\<close> that \<open>c * (1 - p / 100)\<close>, or
  \<open>c * (1 + p / 100)\<close>, evaluates to with each of its three operators rounding; \<open>v\<close> is
  never NaN, and a channel is at most 255.
\<close>

theorem colorUtils_channels:
  assumes "list_all isHexDigit d" and "length d = 3 \<or> length d = 6"
    and "hex = d \<or> hex = CHR ''#'' # d" and "\<bar>p\<bar> < 2 ^ 1024"
  shows "darken hex (Fin p) =
      CHR ''#'' # concat (map (\<lambda>c. twoHex (clampFloor
        (numMul (Fin (real c)) (numSub (Fin 1) (numDivBy (Fin p) 100))))) (specChannels d))
    \<and> lighten hex (Fin p) =
      CHR ''#'' # concat (map (\<lambda>c. twoHex (clampFloor
        (numMul (Fin (real c)) (numAdd (Fin 1) (numDivBy (Fin p) 100))))) (specChannels d))
    \<and> numMul (Fin (real c)) (numSub (Fin 1) (numDivBy (Fin p) 100)) \<noteq> NaN
    \<and> numMul (Fin (real c)) (numAdd (Fin 1) (numDivBy (Fin p) 100)) \<noteq> NaN
    \<and> length (darken hex (Fin p)) = 7 \<and> list_all lowerHexDigit (tl (darken hex (Fin p)))
    \<and> length (lighten hex (Fin p)) = 7 \<and> list_all lowerHexDigit (tl (lighten hex (Fin p)))
    \<and> clampFloor v \<le> 255"
proof -
  from factor_finite [OF assms(4)] obtain fd fl
    where fd: "numSub (Fin 1) (toDouble (p / 100)) = Fin fd"
      and fl: "numAdd (Fin 1) (toDouble (p / 100)) = Fin fl" by auto
  from length_specChannels [OF assms(2)] obtain cr cg cb where ch: "specChannels d = [cr, cg, cb]"
    by (auto simp: numeral_eq_Suc length_Suc_conv)
  from channels_parsed [OF assms(1,2)] ch
  have parsed: "parsedNumber (parseInt16 (substring (expandShort d) 0 2)) = Fin (real cr)"
    "parsedNumber (parseInt16 (substring (expandShort d) 2 4)) = Fin (real cg)"
    "parsedNumber (parseInt16 (substring (expandShort d) 4 6)) = Fin (real cb)"
    by simp_all
  have strip: "stripHash hex = d" by (rule stripHash_digits [OF assms(1,3)])
  have dk: "darken hex (Fin p) =
      CHR ''#'' # concat (map (\<lambda>c. twoHex (clampFloor
        (numMul (Fin (real c)) (numSub (Fin 1) (numDivBy (Fin p) 100))))) (specChannels d))"
    by (simp add: darken_def Let_def strip parsed toHex_clamp ch fd)
  have lt: "lighten hex (Fin p) =
      CHR ''#'' # concat (map (\<lambda>c. twoHex (clampFloor
        (numMul (Fin (real c)) (numAdd (Fin 1) (numDivBy (Fin p) 100))))) (specChannels d))"
    by (simp add: lighten_def Let_def strip parsed toHex_clamp ch fl)
  from dk lt shade_format [OF assms(2)] clampFloor_le [of v] show ?thesis
    by (simp add: fd fl)
qed

lemma toDouble_at:
  assumes "2 powi e \<le> \<bar>x\<bar>" and "\<bar>x\<bar> < 2 powi (e + 1)" and "- 1022 \<le> e" "e \<le> 1022"
  shows "toDouble x = Fin (of_int (roundHalfEven (x / 2 powi (e - 52))) * 2 powi (e - 52))"
proof -
  from assms(4) have "(2::real) powi (e + 1) \<le> 2 powi 1023" by (intro power_int_increasing) simp_all
  with assms(2) have "\<bar>x\<bar> \<le> 2 ^ 1023" by simp
  moreover from assms have "roundFin x = of_int (roundHalfEven (x / 2 powi (e - 52))) * 2 powi (e - 52)"
    by (intro roundFin_at) simp_all
  ultimately show ?thesis by (simp add: toDouble_fin)
qed

lemma lighten_13_steps:
  "numDivBy (Fin 13) 100 = Fin (1170935903116329 / 2 ^ 53)"
  "numAdd (Fin 1) (Fin (1170935903116329 / 2 ^ 53)) = Fin (1272266894732165 / 2 ^ 50)"
  "numMul (Fin 100) (Fin (1272266894732165 / 2 ^ 50)) = Fin (7951668092076031 / 2 ^ 46)"
proof -
  show "numDivBy (Fin 13) 100 = Fin (1170935903116329 / 2 ^ 53)"
    unfolding numDivBy.simps
    by (subst toDouble_at [where e = "- 3"]) (simp_all add: roundHalfEven_def power_int_minus_divide)
  show "numAdd (Fin 1) (Fin (1170935903116329 / 2 ^ 53)) = Fin (1272266894732165 / 2 ^ 50)"
    unfolding numAdd.simps
    by (subst toDouble_at [where e = 0]) (simp_all add: roundHalfEven_def power_int_minus_divide)
  show "numMul (Fin 100) (Fin (1272266894732165 / 2 ^ 50)) = Fin (7951668092076031 / 2 ^ 46)"
    unfolding numMul.simps
    by (subst toDouble_at [where e = 6]) (simp_all add: roundHalfEven_def power_int_minus_divide)
qed

lemma parsed_samples:
  "parsedNumber (parseInt16 ''3b'') = Fin 59" "parsedNumber (parseInt16 ''82'') = Fin 130"
  "parsedNumber (parseInt16 ''f6'') = Fin 246" "parsedNumber (parseInt16 ''64'') = Fin 100"
  by (simp_all add: parsedNumber_pair isHexDigit_def hexDigitValue_def hexPair_def)

text \<open>
  Two inputs outside that: a percent that is NaN gives \<open>aN\<close> for every channel, and
  13 percent on the channel 100 gives \<open>70\<close> where the exact \<open>floor(100 * 1.13)\<close> is 113,
  \<open>71\<close>, since \<open>1 + 13 / 100\<close> rounds below 1.13.
\<close>

theorem colorUtils_percent_counterexample:
  "darken ''#3b82f6'' NaN = ''#aNaNaN''
   \<and> \<not> list_all lowerHexDigit (tl (darken ''#3b82f6'' NaN))
   \<and> lighten ''#646464'' (Fin 13) = ''#707070''
   \<and> twoHex (nat (min 255 (max 0 \<lfloor>100 * (1 + 13 / 100 :: real)\<rfloor>))) = ''71''"
proof -
  have 1: "darken ''#3b82f6'' NaN = ''#aNaNaN''"
    by (simp add: darken_def Let_def stripHash_def expandShort_def substring_def parsed_samples
        toHex_NaN)
  have 2: "\<not> list_all lowerHexDigit ''aNaNaN''"
    by (simp add: lowerHexDigit_def)
  have "lighten ''#646464'' (Fin 13) =
      CHR ''#'' # toHex (mathMin 255 (mathMax 0 (mathFloor
          (numMul (Fin 100) (numAdd (Fin 1) (numDivBy (Fin 13) 100))))))
        @ toHex (mathMin 255 (mathMax 0 (mathFloor
          (numMul (Fin 100) (numAdd (Fin 1) (numDivBy (Fin 13) 100))))))
        @ toHex (mathMin 255 (mathMax 0 (mathFloor
          (numMul (Fin 100) (numAdd (Fin 1) (numDivBy (Fin 13) 100))))))"
    by (simp add: lighten_def Let_def stripHash_def expandShort_def substring_def parsed_samples
        del: numAdd.simps numMul.simps numDivBy.simps)
  also have "\<dots> = ''#707070''"
    unfolding lighten_13_steps by (simp add: toHex_twoHex twoHex_def hexChar_def)
  finally have 3: "lighten ''#646464'' (Fin 13) = ''#707070''" .
  have 4: "twoHex (nat (min 255 (max 0 \<lfloor>100 * (1 + 13 / 100 :: real)\<rfloor>))) = ''71''"
    by (simp add: twoHex_def hexChar_def)
  from 1 2 3 4 show ?thesis by simp
qed

lemma shade_50_steps:
  "numDivBy (Fin 50) 100 = Fin (1 / 2)"
  "numSub (Fin 1) (Fin (1 / 2)) = Fin (1 / 2)"
  "numAdd (Fin 1) (Fin (1 / 2)) = Fin (3 / 2)"
  "numMul (Fin (real 59)) (Fin (1 / 2)) = Fin (59 / 2)"
  "numMul (Fin (real 130)) (Fin (1 / 2)) = Fin 65"
  "numMul (Fin (real 246)) (Fin (1 / 2)) = Fin 123"
  "numMul (Fin (real 59)) (Fin (3 / 2)) = Fin (177 / 2)"
  "numMul (Fin (real 130)) (Fin (3 / 2)) = Fin 195"
  "numMul (Fin (real 246)) (Fin (3 / 2)) = Fin 369"
proof -
  show "numDivBy (Fin 50) 100 = Fin (1 / 2)" "numSub (Fin 1) (Fin (1 / 2)) = Fin (1 / 2)"
    unfolding numDivBy.simps numSub.simps
    by (subst toDouble_at [where e = "- 1"], simp_all add: roundHalfEven_def power_int_minus_divide)+
  show "numAdd (Fin 1) (Fin (1 / 2)) = Fin (3 / 2)"
    unfolding numAdd.simps
    by (subst toDouble_at [where e = 0]) (simp_all add: roundHalfEven_def power_int_minus_divide)
  show "numMul (Fin (real 59)) (Fin (1 / 2)) = Fin (59 / 2)"
    unfolding numMul.simps
    by (subst toDouble_at [where e = 4]) (simp_all add: roundHalfEven_def power_int_minus_divide)
  show "numMul (Fin (real 59)) (Fin (3 / 2)) = Fin (177 / 2)"
    unfolding numMul.simps
    by (subst toDouble_at [where e = 6]) (simp_all add: roundHalfEven_def power_int_minus_divide)
  show "numMul (Fin (real 130)) (Fin (1 / 2)) = Fin 65"
    "numMul (Fin (real 246)) (Fin (1 / 2)) = Fin 123"
    "numMul (Fin (real 130)) (Fin (3 / 2)) = Fin 195"
    "numMul (Fin (real 246)) (Fin (3 / 2)) = Fin 369"
    using toDouble_int [of 65] toDouble_int [of 123] toDouble_int [of 195] toDouble_int [of 369]
    by simp_all
qed

theorem colorUtils_channels_witness:
  "list_all isHexDigit ''3b82f6'' \<and> length ''3b82f6'' = 6 \<and> \<bar>50 :: real\<bar> < 2 ^ 1024
   \<and> darken ''#3b82f6'' (Fin 50) = ''#1d417b''
   \<and> lighten ''3b82f6'' (Fin 50) = ''#58c3ff''"
proof -
  have d: "list_all isHexDigit ''3b82f6''"
    by (simp add: isHexDigit_def hexDigitValue_def)
  have ch: "specChannels ''3b82f6'' = [59, 130, 246]"
    by (simp add: specChannels_def hexPair_def hexDigitValue_def)
  have "darken ''#3b82f6'' (Fin 50) =
      CHR ''#'' # concat (map (\<lambda>c. twoHex (clampFloor
        (numMul (Fin (real c)) (numSub (Fin 1) (numDivBy (Fin 50) 100))))) [59, 130, 246])"
    using colorUtils_channels [of "''3b82f6''" "''#3b82f6''" 50] d by (simp only: ch) simp
  also have "\<dots> = ''#1d417b''"
    unfolding shade_50_steps list.map concat.simps
    by (simp add: shade_50_steps twoHex_def hexChar_def del: numMul.simps)
  finally have 1: "darken ''#3b82f6'' (Fin 50) = ''#1d417b''" .
  have "lighten ''3b82f6'' (Fin 50) =
      CHR ''#'' # concat (map (\<lambda>c. twoHex (clampFloor
        (numMul (Fin (real c)) (numAdd (Fin 1) (numDivBy (Fin 50) 100))))) [59, 130, 246])"
    using colorUtils_channels [of "''3b82f6''" "''3b82f6''" 50] d by (simp only: ch) simp
  also have "\<dots> = ''#58c3ff''"
    unfolding shade_50_steps list.map concat.simps
    by (simp add: shade_50_steps twoHex_def hexChar_def del: numMul.simps)
  finally have 2: "lighten ''3b82f6'' (Fin 50) = ''#58c3ff''" .
  from d 1 2 show ?thesis by simp
qed

subsection \<open>Jitter seeds\<close>

lemma seed_stuck: "toDouble (2 ^ 53 + 1) = Fin (2 ^ 53)"
  by (subst toDouble_at [where e = 53]) (simp_all add: roundHalfEven_def)

lemma int_pow53:
  "real_of_int m \<le> 2 ^ 53 \<longleftrightarrow> m \<le> 2 ^ 53" "real_of_int m < 2 ^ 53 \<longleftrightarrow> m < 2 ^ 53"
  using of_int_le_iff [of m "2 ^ 53", where ?'a = real]
    of_int_less_iff [of m "2 ^ 53", where ?'a = real] by simp_all

lemma countSeed_int: "0 \<le> m \<Longrightarrow> m \<le> 2 ^ 53 \<Longrightarrow> countSeed (Fin (of_int m))"
  by (simp add: int_pow53)

lemma count_plus_one:
  assumes "countSeed v"
  shows "numAdd v (Fin 1) = plusOne v" and "countSeed (plusOne v)"
proof -
  from assms obtain x where v: "v = Fin x" and x: "0 \<le> x" "x \<le> 2 ^ 53"
    and "\<exists>n. x = real_of_int n"
    by (cases v) auto
  then obtain n where xn: "x = of_int n" by blast
  have n: "0 \<le> n" "n \<le> 2 ^ 53" using x by (simp_all add: xn int_pow53)
  have p: "plusOne v = Fin (of_int (if n < 2 ^ 53 then n + 1 else n))"
    by (simp add: v xn int_pow53)
  show "numAdd v (Fin 1) = plusOne v"
  proof (cases "n < 2 ^ 53")
    case True
    with n have "\<bar>n + 1\<bar> \<le> 2 ^ 53" by simp
    from toDouble_int [OF this] True show ?thesis by (simp add: p) (simp add: v xn)
  next
    case False
    with n have "n = 2 ^ 53" by simp
    then show ?thesis using seed_stuck by (simp add: p) (simp add: v xn)
  qed
  show "countSeed (plusOne v)"
    unfolding p using n by (intro countSeed_int) simp_all
qed

lemma ticks_idle: "\<not> interval s \<Longrightarrow> ticks n s = s"
  by (induction n arbitrary: s) (simp_all add: tick_def)

lemma seedInv_mount: "seedInv c (mountSeed c bp r)"
  by (cases c) (simp_all add: seedInv_def mountSeed_def)

lemma seedInv_tick: "seedInv c s \<Longrightarrow> seedInv c (tick s)"
  by (simp add: seedInv_def tick_def)

lemma seedInv_rerender: "seedInv c s \<Longrightarrow> seedInv c (rerender c bp s)"
  by (cases c) (auto simp: seedInv_def rerender_def cleanupEffect_def Let_def)

lemma seedInv_run: "seedInv c s \<Longrightarrow> seedInv c (seedRun c s es)"
proof (induction es arbitrary: s)
  case Nil
  then show ?case by simp
next
  case (Cons e es)
  then show ?case by (cases e) (simp_all add: seedInv_tick seedInv_rerender)
qed

lemma isBouncy_seedEffect [simp]: "isBouncy (seedEffect c s) = isBouncy s"
  by (cases c) simp_all

lemma seed_seedEffect [simp]: "seed (seedEffect c s) = seed s"
  by (cases c) simp_all

lemma isBouncy_rerender: "isBouncy (rerender c q s) = resolveBouncy c q"
  by (simp add: rerender_def Let_def cleanupEffect_def)

lemma seed_rerender: "seed (rerender c q s) = seed s"
  by (simp add: rerender_def Let_def cleanupEffect_def)

lemma isBouncy_run:
  "isBouncy s = resolveBouncy c bp \<Longrightarrow>
     isBouncy (seedRun c s es) = resolveBouncy c (lastProp bp es)"
proof (induction es arbitrary: s bp)
  case Nil
  then show ?case by simp
next
  case (Cons e es)
  show ?case
  proof (cases e)
    case Tick
    with Cons.prems have "isBouncy (tick s) = resolveBouncy c bp" by (simp add: tick_def)
    from Cons.IH [OF this] Tick show ?thesis by simp
  next
    case (Render q)
    from Cons.IH [of "rerender c q s" q] Render show ?thesis by (simp add: isBouncy_rerender)
  qed
qed

lemma count_run: "countSeed (seed s) \<Longrightarrow> countSeed (seed (seedRun c s es))"
proof (induction es arbitrary: s)
  case Nil
  then show ?case by simp
next
  case (Cons e es)
  show ?case
  proof (cases e)
    case Tick
    from Cons.prems have "countSeed (seed (tick s))"
      by (simp add: tick_def count_plus_one)
    from Cons.IH [OF this] Tick show ?thesis by simp
  next
    case (Render q)
    from Cons.prems have "countSeed (seed (rerender c q s))" by (simp add: seed_rerender)
    from Cons.IH [OF this] Render show ?thesis by simp
  qed
qed

lemma idle_run:
  assumes "c \<noteq> PinnedNote" and "seedInv c s" and "\<not> isBouncy s" and "\<not> anyBouncy c es"
  shows "seed (seedRun c s es) = seed s"
  using assms(2-)
proof (induction es arbitrary: s)
  case Nil
  then show ?case by simp
next
  case (Cons e es)
  show ?case
  proof (cases e)
    case Tick
    from Cons.prems(1,2) assms(1) have "\<not> interval s" by (simp add: seedInv_def)
    then have "tick s = s" by (simp add: tick_def)
    with Cons Tick show ?thesis by simp
  next
    case (Render q)
    with Cons.prems have q: "\<not> resolveBouncy c q" "\<not> anyBouncy c es" by simp_all
    have "seedInv c (rerender c q s)" using Cons.prems(1) by (rule seedInv_rerender)
    moreover have "\<not> isBouncy (rerender c q s)" using q(1) by (simp add: isBouncy_rerender)
    ultimately have "seed (seedRun c (rerender c q s) es) = seed (rerender c q s)"
      using q(2) by (rule Cons.IH)
    with Render show ?thesis by (simp add: seed_rerender)
  qed
qed

lemma banner_run: "seedInv RippedBanner s \<Longrightarrow> seed (seedRun RippedBanner s es) = seed s"
proof (induction es arbitrary: s)
  case Nil
  then show ?case by simp
next
  case (Cons e es)
  show ?case
  proof (cases e)
    case Tick
    from Cons.prems have "tick s = s" by (simp add: seedInv_def tick_def)
    with Cons Tick show ?thesis by simp
  next
    case (Render q)
    from Cons.IH [OF seedInv_rerender [OF Cons.prems, of q]] Render show ?thesis
      by (simp add: seed_rerender)
  qed
qed

lemma mount_facts:
  "isBouncy (mountSeed c bp r) = resolveBouncy c bp"
  "seed (mountSeed c bp r) = initialSeed c r"
  by (simp_all add: mountSeed_def)

text \<open>
  C1. At any moment after the mount, whatever periods of the timer and renders came
  before. A component with an \<^verbatim>\<open>isBouncy\<close> option whose current value is false has no
  interval registered, and its seed stays what it is through any number of periods; if
  the option was false at the mount and in every render since, the seed is still the
  initial one. With the current value true, all of them but \<^verbatim>\<open>RippedBanner\<close> have the
  interval registered and a period adds one to the seed, an integer from 0 to \<open>2^53\<close>,
  where it stops. \<^verbatim>\<open>RippedBanner\<close> never has a seed timer and keeps the seed it drew.
  \<^verbatim>\<open>PinnedNote\<close>, without the option, always has the interval registered and counts.
\<close>

theorem seed_timer:
  "(exposesBouncy c \<and> \<not> resolveBouncy c (lastProp bp es) \<longrightarrow>
      \<not> interval (afterRun c bp r es)
      \<and> seed (ticks n (afterRun c bp r es)) = seed (afterRun c bp r es))
   \<and> (exposesBouncy c \<and> \<not> resolveBouncy c bp \<and> \<not> anyBouncy c es \<longrightarrow>
      seed (afterRun c bp r es) = initialSeed c r)
   \<and> (exposesBouncy c \<and> c \<noteq> RippedBanner \<and> resolveBouncy c (lastProp bp es) \<longrightarrow>
      interval (afterRun c bp r es) \<and> countSeed (seed (afterRun c bp r es))
      \<and> seed (tick (afterRun c bp r es)) = plusOne (seed (afterRun c bp r es)))
   \<and> (c = RippedBanner \<longrightarrow>
      \<not> interval (afterRun c bp r es) \<and> seed (afterRun c bp r es) = r)
   \<and> (c = PinnedNote \<longrightarrow>
      interval (afterRun c bp r es) \<and> countSeed (seed (afterRun c bp r es))
      \<and> seed (tick (afterRun c bp r es)) = plusOne (seed (afterRun c bp r es)))"
proof -
  define s where "s = afterRun c bp r es"
  have inv: "seedInv c s"
    unfolding s_def afterRun_def by (intro seedInv_run seedInv_mount)
  have cur: "isBouncy s = resolveBouncy c (lastProp bp es)"
    unfolding s_def afterRun_def by (intro isBouncy_run) (simp add: mount_facts)
  have cnt: "countSeed (seed s)" if "c \<noteq> RippedBanner"
    unfolding s_def afterRun_def using that
    by (intro count_run) (cases c, simp_all add: mount_facts)
  have run: "seed (tick s) = plusOne (seed s)" if "interval s" "c \<noteq> RippedBanner"
    using that cnt by (simp add: tick_def count_plus_one)
  have 1: "\<not> interval s \<and> seed (ticks n s) = seed s"
    if "exposesBouncy c" "\<not> resolveBouncy c (lastProp bp es)"
  proof -
    from that have "c \<noteq> PinnedNote" by auto
    with inv cur that(2) have "\<not> interval s" by (simp add: seedInv_def)
    then show ?thesis by (simp add: ticks_idle)
  qed
  have 2: "seed s = initialSeed c r"
    if "exposesBouncy c" "\<not> resolveBouncy c bp" "\<not> anyBouncy c es"
  proof -
    from that have "c \<noteq> PinnedNote" by auto
    from idle_run [OF this seedInv_mount [of c bp r] _ that(3)] that(2)
    show ?thesis by (simp add: s_def afterRun_def mount_facts)
  qed
  have 3: "interval s \<and> countSeed (seed s) \<and> seed (tick s) = plusOne (seed s)"
    if "c \<noteq> RippedBanner" "c = PinnedNote \<or> resolveBouncy c (lastProp bp es)"
  proof -
    from inv cur that have "interval s" by (auto simp: seedInv_def)
    with cnt run that(1) show ?thesis by simp
  qed
  have 4: "\<not> interval s \<and> seed s = r" if "c = RippedBanner"
  proof -
    from inv that have "\<not> interval s" by (simp add: seedInv_def)
    moreover from banner_run [OF seedInv_mount [of RippedBanner bp r], of es] that
    have "seed s = r" by (simp add: s_def afterRun_def mount_facts)
    ultimately show ?thesis by simp
  qed
  from 1 2 3 4 show ?thesis unfolding s_def [symmetric] by auto
qed

theorem seed_timer_witness:
  "exposesBouncy Tape \<and> \<not> resolveBouncy Tape (lastProp (Some True) [Tick, Tick, Render (Some False)])
   \<and> \<not> interval (afterRun Tape (Some True) (Fin 0) [Tick, Tick, Render (Some False)])
   \<and> seed (ticks 3 (afterRun Tape (Some True) (Fin 0) [Tick, Tick, Render (Some False)])) = Fin 2
   \<and> \<not> resolveBouncy Tape None \<and> \<not> anyBouncy Tape [Tick, Render None, Tick]
   \<and> seed (afterRun Tape None (Fin 0) [Tick, Render None, Tick]) = Fin 0
   \<and> resolveBouncy BinderPaper (lastProp None [Tick])
   \<and> seed (tick (afterRun BinderPaper None (Fin 0) [Tick])) = Fin 2
   \<and> seed (afterRun RippedBanner (Some True) (Fin (1 / 2)) [Tick, Render None]) = Fin (1 / 2)
   \<and> seed (tick (afterRun PinnedNote None (Fin 0) [])) = Fin 1"
proof -
  have one: "toDouble 1 = Fin 1" "toDouble 2 = Fin 2"
    using toDouble_int [of 1] toDouble_int [of 2] by simp_all
  have a: "seed (afterRun Tape (Some True) (Fin 0) [Tick, Tick, Render (Some False)]) = Fin 2"
    by (simp add: afterRun_def mountSeed_def resolveBouncy_def tick_def rerender_def
        cleanupEffect_def one)
  have b: "seed (afterRun BinderPaper None (Fin 0) [Tick]) = Fin 1"
    by (simp add: afterRun_def mountSeed_def resolveBouncy_def tick_def one)
  have c: "seed (afterRun PinnedNote None (Fin 0) []) = Fin 0"
    by (simp add: afterRun_def mountSeed_def)
  from seed_timer [of Tape "Some True" "[Tick, Tick, Render (Some False)]" "Fin 0" 3]
    seed_timer [of Tape None "[Tick, Render None, Tick]" "Fin 0"]
    seed_timer [of BinderPaper None "[Tick]" "Fin 0"]
    seed_timer [of RippedBanner "Some True" "[Tick, Render None]" "Fin (1 / 2)"]
    seed_timer [of PinnedNote None "[]" "Fin 0"]
  show ?thesis by (simp add: resolveBouncy_def a b c)
qed

text \<open>
  \<^verbatim>\<open>PinnedNote\<close>, with no bouncy option, has the timer and changes its seed; and a
  \<^verbatim>\<open>Tape\<close> mounted with \<^verbatim>\<open>isBouncy\<close>, rendered with \<^verbatim>\<open>isBouncy={false}\<close> after
  two periods, has no timer and the seed 2, not its initial 0.
\<close>

theorem seed_timer_counterexample:
  "\<not> exposesBouncy PinnedNote
   \<and> interval (mountSeed PinnedNote None (Fin 0))
   \<and> seed (tick (mountSeed PinnedNote None (Fin 0))) \<noteq> initialSeed PinnedNote (Fin 0)
   \<and> \<not> isBouncy (afterRun Tape (Some True) (Fin 0) [Tick, Tick, Render (Some False)])
   \<and> \<not> interval (afterRun Tape (Some True) (Fin 0) [Tick, Tick, Render (Some False)])
   \<and> seed (afterRun Tape (Some True) (Fin 0) [Tick, Tick, Render (Some False)]) = Fin 2
   \<and> initialSeed Tape (Fin 0) = Fin 0"
proof -
  have one: "toDouble 1 = Fin 1" "toDouble 2 = Fin 2"
    using toDouble_int [of 1] toDouble_int [of 2] by simp_all
  show ?thesis
    by (simp add: afterRun_def mountSeed_def resolveBouncy_def tick_def rerender_def
        cleanupEffect_def one)
qed

subsection \<open>RippedBanner\<close>

text \<open>
  The rounding errors of the seven operations behind a coordinate, for any rounding
  \<open>rf\<close> with the relative error of the doubles.
\<close>

lemma round_step:
  fixes W c :: real
  assumes "\<bar>y - a\<bar> \<le> (\<bar>a\<bar> + 1) * c" and "0 \<le> c" and "\<bar>a\<bar> \<le> al * W + be"
  shows "\<bar>y - a\<bar> \<le> al * (W * c) + (be + 1) * c"
proof -
  from assms(3) have "\<bar>a\<bar> + 1 \<le> al * W + be + 1" by simp
  then have "(\<bar>a\<bar> + 1) * c \<le> (al * W + be + 1) * c" using assms(2) by (rule mult_right_mono)
  with assms(1) show ?thesis by (simp add: algebra_simps)
qed

lemma round_chain:
  fixes W x1 x2 r :: real and i :: nat and rf :: "real \<Rightarrow> real"
  assumes rf: "\<And>a. \<bar>rf a - a\<bar> \<le> (\<bar>a\<bar> + 1) / 2 ^ 53"
    and x: "\<bar>x1\<bar> \<le> W" "\<bar>x2\<bar> \<le> W" and i: "1 \<le> i" "i \<le> 6" and r: "0 \<le> r" "r < 1"
    and d0_def: "d0 = rf (x2 - x1)" and dx_def: "dx = rf (d0 / 6)" and t_def: "t = rf (dx * real i)"
    and px_def: "px = rf (x1 + t)" and j0_def: "j0 = rf (r - 1 / 2)" and j_def: "j = rf (j0 * 8)"
    and v_def: "v = rf (px + j)"
  shows "\<bar>x2 - x1\<bar> \<le> 9 * W + 14" "\<bar>d0 / 6\<bar> \<le> 9 * W + 14" "\<bar>dx * real i\<bar> \<le> 9 * W + 14"
    "\<bar>x1 + t\<bar> \<le> 9 * W + 14" "\<bar>r - 1 / 2\<bar> \<le> 9 * W + 14" "\<bar>j0 * 8\<bar> \<le> 9 * W + 14"
    "\<bar>px + j\<bar> \<le> 9 * W + 14"
    "\<bar>j\<bar> \<le> 4 + (W + 1) / 2 ^ 46"
    "\<bar>v - (x1 + (x2 - x1) * real i / 6)\<bar> \<le> 4 + (W + 1) / 2 ^ 46"
proof -
  define c :: real where "c = 1 / 2 ^ 53"
  define Wc where "Wc = W * c"
  have W: "0 \<le> W" using x(1) by linarith
  have c: "0 \<le> c" "c \<le> 1 / 32" by (simp_all add: c_def)
  have Wc: "0 \<le> Wc" "Wc \<le> W / 8"
    using W c unfolding Wc_def by (simp_all add: c_def field_simps)
  have err: "\<bar>rf a - a\<bar> \<le> al * Wc + (be + 1) * c" if "\<bar>a\<bar> \<le> al * W + be" for a al be
    unfolding Wc_def using rf [of a] c(1) that by (intro round_step) (simp_all add: c_def)
  have ri: "1 \<le> real i" "real i \<le> 6" using i by simp_all
  define a0 where "a0 = x2 - x1"
  define q0 where "q0 = a0 * real i / 6"
  have A0: "\<bar>a0\<bar> \<le> 2 * W + 0" using x unfolding a0_def by linarith
  have m0: "\<bar>d0 - a0\<bar> \<le> 2 * Wc + c"
    using err [OF A0] by (simp add: d0_def a0_def)
  have M0: "\<bar>d0 / 6\<bar> \<le> (1 / 2) * W + 1 / 6" using m0 A0 W c Wc by linarith
  have m1: "\<bar>dx - d0 / 6\<bar> \<le> (1 / 2) * Wc + (7 / 6) * c"
    using err [OF M0] by (simp add: dx_def)
  have M1: "\<bar>dx\<bar> \<le> W + 1" using m1 M0 W c Wc by linarith
  have D1: "\<bar>dx - a0 / 6\<bar> \<le> Wc + 2 * c" using m1 m0 c Wc by linarith
  have "\<bar>dx * real i\<bar> = \<bar>dx\<bar> * real i" by (simp add: abs_mult)
  also have "\<dots> \<le> (W + 1) * 6" using M1 ri W by (intro mult_mono) simp_all
  finally have P1: "\<bar>dx * real i\<bar> \<le> 6 * W + 6" by simp
  have "dx * real i - q0 = (dx - a0 / 6) * real i"
    by (simp add: q0_def left_diff_distrib)
  then have "\<bar>dx * real i - q0\<bar> = \<bar>dx - a0 / 6\<bar> * real i"
    by (simp add: abs_mult)
  also have "\<dots> \<le> (Wc + 2 * c) * 6" using D1 ri c Wc by (intro mult_mono) simp_all
  finally have P2: "\<bar>dx * real i - q0\<bar> \<le> 6 * Wc + 12 * c" by simp
  have m2: "\<bar>t - dx * real i\<bar> \<le> 6 * Wc + 7 * c"
    using err [OF P1] by (simp add: t_def)
  have D2: "\<bar>t - q0\<bar> \<le> 12 * Wc + 19 * c" using m2 P2 by linarith
  have A3: "\<bar>x1 + t\<bar> \<le> 8 * W + 7" using x(1) m2 P1 W c Wc by linarith
  have m3: "\<bar>px - (x1 + t)\<bar> \<le> 8 * Wc + 8 * c"
    using err [OF A3] by (simp add: px_def)
  have M3: "\<bar>px\<bar> \<le> 9 * W + 8" using m3 A3 W c Wc by linarith
  have D3: "\<bar>px - (x1 + q0)\<bar> \<le> 20 * Wc + 27 * c" using m3 D2 by linarith
  define a4 where "a4 = r - 1 / 2"
  have A4: "\<bar>a4\<bar> \<le> 0 * W + 1 / 2" using r unfolding a4_def by linarith
  have m4: "\<bar>j0 - a4\<bar> \<le> (3 / 2) * c"
    using err [OF A4] by (simp add: j0_def a4_def)
  have A5: "\<bar>j0 * 8\<bar> \<le> 0 * W + 8" using m4 A4 c by linarith
  have m5: "\<bar>j - j0 * 8\<bar> \<le> 9 * c"
    using err [OF A5] by (simp add: j_def)
  have D5: "\<bar>j - a4 * 8\<bar> \<le> 21 * c" using m5 m4 by linarith
  have J: "\<bar>a4 * 8\<bar> \<le> 4" using A4 by linarith
  have A6: "\<bar>px + j\<bar> \<le> 9 * W + 13" using M3 D5 J c by linarith
  have m6: "\<bar>v - (px + j)\<bar> \<le> 9 * Wc + 14 * c"
    using err [OF A6] by (simp add: v_def)
  have fin: "128 * (Wc + c) = (W + 1) / 2 ^ 46"
    by (simp add: Wc_def c_def field_simps)
  show "\<bar>x2 - x1\<bar> \<le> 9 * W + 14" using A0 W unfolding a0_def by linarith
  show "\<bar>d0 / 6\<bar> \<le> 9 * W + 14" using M0 W by linarith
  show "\<bar>dx * real i\<bar> \<le> 9 * W + 14" using P1 W by linarith
  show "\<bar>x1 + t\<bar> \<le> 9 * W + 14" using A3 W by linarith
  show "\<bar>r - 1 / 2\<bar> \<le> 9 * W + 14" using A4 W unfolding a4_def by linarith
  show "\<bar>j0 * 8\<bar> \<le> 9 * W + 14" using A5 W by linarith
  show "\<bar>px + j\<bar> \<le> 9 * W + 14" using A6 W by linarith
  define E where "E = 128 * (Wc + c)"
  have E: "21 * c \<le> E" "29 * Wc + 62 * c \<le> E" using c(1) Wc(1) unfolding E_def by simp_all
  have "\<bar>j\<bar> \<le> 4 + E" using D5 J E by linarith
  then have "\<bar>j\<bar> \<le> 4 + 128 * (Wc + c)" unfolding E_def .
  then show "\<bar>j\<bar> \<le> 4 + (W + 1) / 2 ^ 46" by (simp only: fin)
  have "\<bar>v - (x1 + q0)\<bar> \<le> 4 + E"
    using m6 D3 D5 J E by linarith
  then have "\<bar>v - (x1 + q0)\<bar> \<le> 4 + 128 * (Wc + c)" unfolding E_def .
  then show "\<bar>v - (x1 + (x2 - x1) * real i / 6)\<bar> \<le> 4 + (W + 1) / 2 ^ 46"
    by (simp only: fin q0_def a0_def)
qed

lemma big_bound:
  assumes "W \<le> 2 ^ 1000" and "\<bar>a\<bar> \<le> 9 * W + 14"
  shows "\<bar>a::real\<bar> \<le> 2 ^ 1023"
proof -
  have "9 * W + 14 \<le> 9 * 2 ^ 1000 + (14::real)" using assms(1) by simp
  also have "\<dots> \<le> 2 ^ 1023" by simp
  finally show ?thesis using assms(2) by linarith
qed

text \<open>
  One coordinate of a vertex: all seven roundings stay finite, and the result is within
  \<open>4 + (W + 1) / 2^46\<close> of the exact point on the side.
\<close>

lemma coordinate_bound:
  assumes x: "\<bar>x1\<bar> \<le> W" "\<bar>x2\<bar> \<le> W" and W: "W \<le> 2 ^ 1000"
    and i: "1 \<le> i" "i \<le> 6" and r: "0 \<le> r" "r < 1"
  shows "\<exists>v. numAdd (numAdd (Fin x1) (numMul (numDivBy (numSub (Fin x2) (Fin x1)) 6) (Fin (real i))))
                  (numMul (numSub (Fin r) (Fin 0.5)) (Fin 8)) = Fin v
            \<and> \<bar>v - (x1 + (x2 - x1) * real i / 6)\<bar> \<le> 4 + (W + 1) / 2 ^ 46"
proof -
  define d0 where "d0 = roundFin (x2 - x1)"
  define dx where "dx = roundFin (d0 / 6)"
  define t where "t = roundFin (dx * real i)"
  define px where "px = roundFin (x1 + t)"
  define j0 where "j0 = roundFin (r - 1 / 2)"
  define j where "j = roundFin (j0 * 8)"
  define v where "v = roundFin (px + j)"
  note rc = round_chain [of roundFin x1 W x2 i r d0 dx t px j0 j v,
      OF roundFin_error_simple x i r d0_def dx_def t_def px_def j0_def j_def v_def]
  have s0: "numSub (Fin x2) (Fin x1) = Fin d0"
    using big_bound [OF W rc(1)] by (simp add: toDouble_fin d0_def)
  have s1: "numDivBy (Fin d0) 6 = Fin dx"
    using big_bound [OF W rc(2)] by (simp add: toDouble_fin dx_def)
  have s2: "numMul (Fin dx) (Fin (real i)) = Fin t"
    using big_bound [OF W rc(3)] by (simp add: toDouble_fin t_def)
  have s3: "numAdd (Fin x1) (Fin t) = Fin px"
    using big_bound [OF W rc(4)] by (simp add: toDouble_fin px_def)
  have s4: "numSub (Fin r) (Fin 0.5) = Fin j0"
    using big_bound [OF W rc(5)] by (simp add: toDouble_fin j0_def)
  have s5: "numMul (Fin j0) (Fin 8) = Fin j"
    using big_bound [OF W rc(6)] by (simp add: toDouble_fin j_def)
  have s6: "numAdd (Fin px) (Fin j) = Fin v"
    using big_bound [OF W rc(7)] by (simp add: toDouble_fin v_def)
  have "numAdd (numAdd (Fin x1) (numMul (numDivBy (numSub (Fin x2) (Fin x1)) 6) (Fin (real i))))
                  (numMul (numSub (Fin r) (Fin 0.5)) (Fin 8)) = Fin v"
    by (simp only: s0 s1 s2 s3 s4 s5 s6)
  with rc(9) show ?thesis by blast
qed

lemma jitter_bound:
  assumes W: "0 \<le> W" "W \<le> 2 ^ 1000" and r: "0 \<le> r" "r < 1"
  shows "\<exists>v. numMul (numSub (Fin r) (Fin 0.5)) (Fin 8) = Fin v \<and> \<bar>v\<bar> \<le> 4 + (W + 1) / 2 ^ 46"
proof -
  define d0 where "d0 = roundFin (0 - 0)"
  define dx where "dx = roundFin (d0 / 6)"
  define t where "t = roundFin (dx * real (1::nat))"
  define px where "px = roundFin (0 + t)"
  define j0 where "j0 = roundFin (r - 1 / 2)"
  define j where "j = roundFin (j0 * 8)"
  define v where "v = roundFin (px + j)"
  have z: "\<bar>0::real\<bar> \<le> W" using W(1) by simp
  have one: "(1::nat) \<le> 1" "(1::nat) \<le> 6" by simp_all
  note rc = round_chain [of roundFin 0 W 0 1 r d0 dx t px j0 j v,
      OF roundFin_error_simple z z one r d0_def dx_def t_def px_def j0_def j_def v_def]
  have s4: "numSub (Fin r) (Fin 0.5) = Fin j0"
    using big_bound [OF W(2) rc(5)] by (simp add: toDouble_fin j0_def)
  have s5: "numMul (Fin j0) (Fin 8) = Fin j"
    using big_bound [OF W(2) rc(6)] by (simp add: toDouble_fin j_def)
  have "numMul (numSub (Fin r) (Fin 0.5)) (Fin 8) = Fin j" by (simp only: s4 s5)
  with rc(8) show ?thesis by blast
qed

lemma unitDraw_Fin: "unitDraw v \<Longrightarrow> \<exists>r. v = Fin r \<and> 0 \<le> r \<and> r < 1"
  by (cases v) simp_all

lemma length_jaggedLoop: "length (jaggedLoop random k x1 y1 dx dy i n) = n"
  by (induction n arbitrary: k i) (simp_all add: Let_def)

lemma jaggedLoop_nth:
  "j < n \<Longrightarrow> jaggedLoop random k x1 y1 dx dy i n ! j =
     LineTo (numAdd (numAdd x1 (numMul dx (Fin (real (i + j)))))
                    (numMul (numSub (random (k + 2 * j)) (Fin 0.5)) (Fin jaggedness)))
            (numAdd (numAdd y1 (numMul dy (Fin (real (i + j)))))
                    (numMul (numSub (random (k + 2 * j + 1)) (Fin 0.5)) (Fin jaggedness)))"
proof (induction n arbitrary: k i j)
  case 0
  then show ?case by simp
next
  case (Suc n)
  show ?case
  proof (cases j)
    case 0
    then show ?thesis by (simp add: Let_def)
  next
    case (Suc j')
    with Suc.prems have "j' < n" by simp
    from Suc.IH [OF this, of "k + 2" "i + 1"] Suc show ?thesis
      by (simp add: Let_def add.commute add.left_commute)
  qed
qed

lemma length_jaggedLine: "length (jaggedLine random k x1 y1 x2 y2) = 6"
  by (simp add: jaggedLine_def Let_def length_jaggedLoop segmentCount_def)

lemma jaggedLine_nth:
  "j < 6 \<Longrightarrow> jaggedLine random k x1 y1 x2 y2 ! j =
     LineTo (numAdd (numAdd x1 (numMul (numDivBy (numSub x2 x1) 6) (Fin (real (1 + j)))))
                    (numMul (numSub (random (k + 2 * j)) (Fin 0.5)) (Fin 8)))
            (numAdd (numAdd y1 (numMul (numDivBy (numSub y2 y1) 6) (Fin (real (1 + j)))))
                    (numMul (numSub (random (k + 2 * j + 1)) (Fin 0.5)) (Fin 8)))"
  by (simp add: jaggedLine_def Let_def jaggedLoop_nth segmentCount_def jaggedness_def)

lemma jaggedLine_isLineTo: "list_all isLineTo (jaggedLine random k x1 y1 x2 y2)"
  by (simp add: list_all_length length_jaggedLine jaggedLine_nth)

text \<open>A vertex of a side drawn between finite end points.\<close>

lemma side_vertex:
  assumes d: "\<forall>k. unitDraw (random k)"
    and x: "\<bar>x1\<bar> \<le> W" "\<bar>x2\<bar> \<le> W" and y: "\<bar>y1\<bar> \<le> W" "\<bar>y2\<bar> \<le> W"
    and W: "W \<le> 2 ^ 1000" and j: "j < 6"
  shows "withinDist (4 + (W + 1) / 2 ^ 46)
           (cmdEnd (jaggedLine random k (Fin x1) (Fin y1) (Fin x2) (Fin y2) ! j))
           (x1 + (x2 - x1) * real (1 + j) / 6, y1 + (y2 - y1) * real (1 + j) / 6)"
proof -
  from d obtain r where r: "random (k + 2 * j) = Fin r" "0 \<le> r" "r < 1"
    using unitDraw_Fin by blast
  from d obtain q where q: "random (k + 2 * j + 1) = Fin q" "0 \<le> q" "q < 1"
    using unitDraw_Fin by blast
  have i: "1 \<le> 1 + j" "1 + j \<le> 6" using j by simp_all
  from coordinate_bound [OF x W i r(2,3)] obtain vx where
    vx: "numAdd (numAdd (Fin x1) (numMul (numDivBy (numSub (Fin x2) (Fin x1)) 6) (Fin (real (1 + j)))))
                  (numMul (numSub (Fin r) (Fin 0.5)) (Fin 8)) = Fin vx"
        "\<bar>vx - (x1 + (x2 - x1) * real (1 + j) / 6)\<bar> \<le> 4 + (W + 1) / 2 ^ 46"
    by blast
  from coordinate_bound [OF y W i q(2,3)] obtain vy where
    vy: "numAdd (numAdd (Fin y1) (numMul (numDivBy (numSub (Fin y2) (Fin y1)) 6) (Fin (real (1 + j)))))
                  (numMul (numSub (Fin q) (Fin 0.5)) (Fin 8)) = Fin vy"
        "\<bar>vy - (y1 + (y2 - y1) * real (1 + j) / 6)\<bar> \<le> 4 + (W + 1) / 2 ^ 46"
    by blast
  have "jaggedLine random k (Fin x1) (Fin y1) (Fin x2) (Fin y2) ! j = LineTo (Fin vx) (Fin vy)"
    by (simp only: jaggedLine_nth [OF j] r(1) q(1) vx(1) vy(1))
  with vx(2) vy(2) show ?thesis by simp
qed

lemma idealVertex_onBoundary:
  assumes "0 \<le> width" "0 \<le> height" "s < 4" "1 \<le> j" "j \<le> 6"
  shows "onBoundary width height (idealVertex width height s j)"
proof -
  have "real j / 6 \<le> 1" "0 \<le> real j / 6" using assms by simp_all
  then have "width * (real j / 6) \<le> width * 1" "height * (real j / 6) \<le> height * 1"
    "0 \<le> width * (real j / 6)" "0 \<le> height * (real j / 6)"
    using assms(1,2) by (simp_all add: mult_left_mono)
  then show ?thesis
    by (simp add: onBoundary_def idealVertex_def)
qed

lemma side_back:
  "w + (0 - w) * real (1 + j') / 6 = w - w * real (Suc j') / 6"
  "h + (h - h) * real (1 + j') / 6 = (h::real)"
  by (simp_all add: field_simps)

text \<open>
  C6. For finite width and height of magnitude at most \<open>2^1000\<close> and all draws in
  \<open>[0, 1)\<close> the outline is a start point and four sides of six line segments each, every
  coordinate is finite, and every vertex, the start point included, is within
  \<open>4 + (max |width| |height| + 1) / 2^46\<close> in each coordinate of its point on the ideal
  rectangle: half the jaggedness and the rounding of the seven operations behind a
  coordinate.
\<close>

theorem rippedBanner_outline_within_tolerance:
  assumes "\<forall>k. unitDraw (random k)" and "\<bar>w\<bar> \<le> 2 ^ 1000" and "\<bar>h\<bar> \<le> 2 ^ 1000"
  shows "length (rippedBannerPath random (Fin w) (Fin h)) = 1 + 4 * 6
    \<and> (\<exists>mx my. hd (rippedBannerPath random (Fin w) (Fin h)) = MoveTo mx my)
    \<and> withinDist (4 + (max \<bar>w\<bar> \<bar>h\<bar> + 1) / 2 ^ 46)
         (cmdEnd (hd (rippedBannerPath random (Fin w) (Fin h)))) (0, 0)
    \<and> list_all isLineTo (tl (rippedBannerPath random (Fin w) (Fin h)))
    \<and> (\<forall>s j. s < 4 \<and> 1 \<le> j \<and> j \<le> 6 \<longrightarrow>
          withinDist (4 + (max \<bar>w\<bar> \<bar>h\<bar> + 1) / 2 ^ 46)
            (cmdEnd (rippedBannerPath random (Fin w) (Fin h) ! (6 * s + j)))
            (idealVertex w h s j))"
proof -
  define W where "W = max \<bar>w\<bar> \<bar>h\<bar>"
  have W: "W \<le> 2 ^ 1000" "0 \<le> W" using assms(2,3) by (simp_all add: W_def)
  have z: "\<bar>0::real\<bar> \<le> W" using W(2) by simp
  have ww: "\<bar>w\<bar> \<le> W" and hh: "\<bar>h\<bar> \<le> W" by (simp_all add: W_def)
  note d = assms(1)
  have side: "withinDist (4 + (W + 1) / 2 ^ 46)
            (cmdEnd (rippedBannerPath random (Fin w) (Fin h) ! (6 * s + j)))
            (idealVertex w h s j)" if "s < 4" "1 \<le> j" "j \<le> 6" for s j
  proof -
    from that obtain j' where j: "j = Suc j'" "j' < 6" by (cases j) simp_all
    from that consider "s = 0" | "s = 1" | "s = 2" | "s = 3" by linarith
    then show ?thesis
    proof cases
      case 1
      have e: "rippedBannerPath random (Fin w) (Fin h) ! (6 * s + j)
          = jaggedLine random 2 (Fin 0) (Fin 0) (Fin w) (Fin 0) ! j'"
        using 1 j by (simp add: rippedBannerPath_def nth_append length_jaggedLine)
      have p: "(0 + (w - 0) * real (1 + j') / 6, 0 + (0 - 0) * real (1 + j') / 6)
          = idealVertex w h s j"
        using 1 j by (simp add: idealVertex_def)
      from side_vertex [OF d z ww z z W(1) j(2), of 2] show ?thesis
        by (simp only: e p)
    next
      case 2
      have e: "rippedBannerPath random (Fin w) (Fin h) ! (6 * s + j)
          = jaggedLine random (2 + 2 * segmentCount) (Fin w) (Fin 0) (Fin w) (Fin h) ! j'"
        using 2 j by (simp add: rippedBannerPath_def nth_append length_jaggedLine)
      have p: "(w + (w - w) * real (1 + j') / 6, 0 + (h - 0) * real (1 + j') / 6)
          = idealVertex w h s j"
        using 2 j by (simp add: idealVertex_def)
      from side_vertex [OF d ww ww z hh W(1) j(2), of "2 + 2 * segmentCount"] show ?thesis
        by (simp only: e p)
    next
      case 3
      have e: "rippedBannerPath random (Fin w) (Fin h) ! (6 * s + j)
          = jaggedLine random (2 + 4 * segmentCount) (Fin w) (Fin h) (Fin 0) (Fin h) ! j'"
        using 3 j by (simp add: rippedBannerPath_def nth_append length_jaggedLine)
      have p: "(w + (0 - w) * real (1 + j') / 6, h + (h - h) * real (1 + j') / 6)
          = idealVertex w h s j"
        using 3 j by (simp only: side_back) (simp add: idealVertex_def)
      from side_vertex [OF d ww z hh hh W(1) j(2), of "2 + 4 * segmentCount"] show ?thesis
        by (simp only: e p)
    next
      case 4
      have e: "rippedBannerPath random (Fin w) (Fin h) ! (6 * s + j)
          = jaggedLine random (2 + 6 * segmentCount) (Fin 0) (Fin h) (Fin 0) (Fin 0) ! j'"
        using 4 j by (simp add: rippedBannerPath_def nth_append length_jaggedLine)
      have p: "(0 + (0 - 0) * real (1 + j') / 6, h + (0 - h) * real (1 + j') / 6)
          = idealVertex w h s j"
        using 4 j by (simp only: side_back) (simp add: idealVertex_def)
      from side_vertex [OF d z z hh z W(1) j(2), of "2 + 6 * segmentCount"] show ?thesis
        by (simp only: e p)
    qed
  qed
  have start: "withinDist (4 + (W + 1) / 2 ^ 46)
      (cmdEnd (hd (rippedBannerPath random (Fin w) (Fin h)))) (0, 0)"
  proof -
    from d obtain r where r: "random 0 = Fin r" "0 \<le> r" "r < 1"
      using unitDraw_Fin by blast
    from d obtain q where q: "random 1 = Fin q" "0 \<le> q" "q < 1"
      using unitDraw_Fin by blast
    from jitter_bound [OF W(2,1) r(2,3)] obtain vx where
      vx: "numMul (numSub (Fin r) (Fin 0.5)) (Fin 8) = Fin vx" "\<bar>vx\<bar> \<le> 4 + (W + 1) / 2 ^ 46"
      by blast
    from jitter_bound [OF W(2,1) q(2,3)] obtain vy where
      vy: "numMul (numSub (Fin q) (Fin 0.5)) (Fin 8) = Fin vy" "\<bar>vy\<bar> \<le> 4 + (W + 1) / 2 ^ 46"
      by blast
    have "hd (rippedBannerPath random (Fin w) (Fin h)) = MoveTo (Fin vx) (Fin vy)"
      unfolding rippedBannerPath_def list.sel jaggedness_def by (simp only: r(1) q(1) vx(1) vy(1))
    with vx(2) vy(2) show ?thesis by simp
  qed
  have len: "length (rippedBannerPath random (Fin w) (Fin h)) = 1 + 4 * 6"
    by (simp add: rippedBannerPath_def length_jaggedLine)
  have lines: "list_all isLineTo (tl (rippedBannerPath random (Fin w) (Fin h)))"
    by (simp add: rippedBannerPath_def jaggedLine_isLineTo)
  have mv: "\<exists>mx my. hd (rippedBannerPath random (Fin w) (Fin h)) = MoveTo mx my"
    by (simp add: rippedBannerPath_def)
  from side start len lines mv show ?thesis unfolding W_def by blast
qed

lemma half_jitter:
  "numSub (Fin 0) (Fin (1 / 2)) = Fin (- (1 / 2))"
  "numMul (Fin (- (1 / 2))) (Fin 8) = Fin (- 4)"
proof -
  show "numSub (Fin 0) (Fin (1 / 2)) = Fin (- (1 / 2))"
    unfolding numSub.simps
    by (subst toDouble_at [where e = "- 1"]) (simp_all add: roundHalfEven_def power_int_minus_divide)
  show "numMul (Fin (- (1 / 2))) (Fin 8) = Fin (- 4)"
    using toDouble_int [of "- 4"] by simp
qed

lemma banner_60_30_steps:
  "numSub (Fin 60) (Fin 60) = Fin 0" "numDivBy (Fin 0) 6 = Fin 0" "numMul (Fin 0) (Fin 3) = Fin 0"
  "numAdd (Fin 60) (Fin 0) = Fin 60" "numAdd (Fin 60) (Fin (- 4)) = Fin 56"
  "numSub (Fin 30) (Fin 0) = Fin 30" "numDivBy (Fin 30) 6 = Fin 5" "numMul (Fin 5) (Fin 3) = Fin 15"
  "numAdd (Fin 0) (Fin 15) = Fin 15" "numAdd (Fin 15) (Fin (- 4)) = Fin 11"
  using toDouble_int [of 0] toDouble_int [of 60] toDouble_int [of 56] toDouble_int [of 30]
    toDouble_int [of 5] toDouble_int [of 15] toDouble_int [of 11]
  by simp_all

theorem rippedBanner_outline_within_tolerance_witness:
  "(\<forall>k. unitDraw ((\<lambda>k. Fin 0) k)) \<and> \<bar>60 :: real\<bar> \<le> 2 ^ 1000 \<and> \<bar>30 :: real\<bar> \<le> 2 ^ 1000
   \<and> rippedBannerPath (\<lambda>k. Fin 0) (Fin 60) (Fin 30) ! 9 = LineTo (Fin 56) (Fin 11)
   \<and> idealVertex 60 30 1 3 = (60, 15)
   \<and> withinDist (4 + (max \<bar>60\<bar> \<bar>30\<bar> + 1) / 2 ^ 46)
        (cmdEnd (rippedBannerPath (\<lambda>k. Fin 0) (Fin 60) (Fin 30) ! 9)) (60, 15)"
proof -
  have h: "\<forall>k. unitDraw ((\<lambda>k. Fin 0) k)" by simp
  have b: "\<bar>60 :: real\<bar> \<le> 2 ^ 1000" "\<bar>30 :: real\<bar> \<le> 2 ^ 1000" by simp_all
  have "rippedBannerPath (\<lambda>k. Fin 0) (Fin 60) (Fin 30) ! 9
      = jaggedLine (\<lambda>k. Fin 0) (2 + 2 * segmentCount) (Fin 60) (Fin 0) (Fin 60) (Fin 30) ! 2"
    by (simp add: rippedBannerPath_def nth_append length_jaggedLine)
  also have "\<dots> = LineTo
      (numAdd (numAdd (Fin 60) (numMul (numDivBy (numSub (Fin 60) (Fin 60)) 6) (Fin 3)))
              (numMul (numSub (Fin 0) (Fin (1 / 2))) (Fin 8)))
      (numAdd (numAdd (Fin 0) (numMul (numDivBy (numSub (Fin 30) (Fin 0)) 6) (Fin 3)))
              (numMul (numSub (Fin 0) (Fin (1 / 2))) (Fin 8)))"
    by (simp add: jaggedLine_nth del: numAdd.simps numSub.simps numMul.simps numDivBy.simps)
  also have "\<dots> = LineTo (Fin 56) (Fin 11)"
    unfolding half_jitter banner_60_30_steps by (rule refl)
  finally have v: "rippedBannerPath (\<lambda>k. Fin 0) (Fin 60) (Fin 30) ! 9 = LineTo (Fin 56) (Fin 11)" .
  have i: "idealVertex 60 30 1 3 = (60, 15)"
    by (simp add: idealVertex_def)
  from rippedBanner_outline_within_tolerance [of "\<lambda>k. Fin 0" 60 30, OF h b] have
    "\<forall>s j. s < 4 \<and> 1 \<le> j \<and> j \<le> 6 \<longrightarrow>
       withinDist (4 + (max \<bar>60\<bar> \<bar>30\<bar> + 1) / 2 ^ 46)
         (cmdEnd (rippedBannerPath (\<lambda>k. Fin 0) (Fin 60) (Fin 30) ! (6 * s + j)))
         (idealVertex 60 30 s j)"
    by blast
  from this [rule_format, of 1 3] have
    "withinDist (4 + (max \<bar>60\<bar> \<bar>30\<bar> + 1) / 2 ^ 46)
        (cmdEnd (rippedBannerPath (\<lambda>k. Fin 0) (Fin 60) (Fin 30) ! 9)) (idealVertex 60 30 1 3)"
    by simp
  with h b v i show ?thesis by (simp only: simp_thms)
qed

lemma banner_100_70_steps:
  "numSub (Fin 0) (Fin 100) = Fin (- 100)"
  "numDivBy (Fin (- 100)) 6 = Fin (- (4691249611844267 / 2 ^ 48))"
  "numMul (Fin (- (4691249611844267 / 2 ^ 48))) (Fin 5) = Fin (- (2932031007402667 / 2 ^ 45))"
  "numAdd (Fin 100) (Fin (- (2932031007402667 / 2 ^ 45))) = Fin (586406201480533 / 2 ^ 45)"
  "numAdd (Fin (586406201480533 / 2 ^ 45)) (Fin (- 4)) = Fin (445668713125205 / 2 ^ 45)"
  "numSub (Fin 70) (Fin 70) = Fin 0" "numDivBy (Fin 0) 6 = Fin 0" "numMul (Fin 0) (Fin 5) = Fin 0"
  "numAdd (Fin 70) (Fin 0) = Fin 70" "numAdd (Fin 70) (Fin (- 4)) = Fin 66"
proof -
  show "numSub (Fin 0) (Fin 100) = Fin (- 100)" "numSub (Fin 70) (Fin 70) = Fin 0"
    "numDivBy (Fin 0) 6 = Fin 0" "numMul (Fin 0) (Fin 5) = Fin 0"
    "numAdd (Fin 70) (Fin 0) = Fin 70" "numAdd (Fin 70) (Fin (- 4)) = Fin 66"
    using toDouble_int [of "- 100"] toDouble_int [of 0] toDouble_int [of 70] toDouble_int [of 66]
    by simp_all
  show "numDivBy (Fin (- 100)) 6 = Fin (- (4691249611844267 / 2 ^ 48))"
    unfolding numDivBy.simps
    by (subst toDouble_at [where e = 4]) (simp_all add: roundHalfEven_def power_int_minus_divide)
  show "numMul (Fin (- (4691249611844267 / 2 ^ 48))) (Fin 5) = Fin (- (2932031007402667 / 2 ^ 45))"
    unfolding numMul.simps
    by (subst toDouble_at [where e = 6]) (simp_all add: roundHalfEven_def power_int_minus_divide)
  show "numAdd (Fin 100) (Fin (- (2932031007402667 / 2 ^ 45))) = Fin (586406201480533 / 2 ^ 45)"
    unfolding numAdd.simps
    by (subst toDouble_at [where e = 4]) (simp_all add: roundHalfEven_def power_int_minus_divide)
  show "numAdd (Fin (586406201480533 / 2 ^ 45)) (Fin (- 4)) = Fin (445668713125205 / 2 ^ 45)"
    unfolding numAdd.simps
    by (subst toDouble_at [where e = 3]) (simp_all add: roundHalfEven_def power_int_minus_divide)
qed

text \<open>
  The bound 4 itself fails: with width 100, height 70 and every draw 0, the fifth vertex
  of the bottom side has x = 12.666666666666657, more than 4 from 50 / 3.
\<close>

theorem rippedBanner_outline_counterexample:
  "unitDraw (Fin 0)
   \<and> rippedBannerPath (\<lambda>k. Fin 0) (Fin 100) (Fin 70) ! 17
       = LineTo (Fin (445668713125205 / 2 ^ 45)) (Fin 66)
   \<and> idealVertex 100 70 2 5 = (50 / 3, 70)
   \<and> \<not> withinDist 4 (cmdEnd (rippedBannerPath (\<lambda>k. Fin 0) (Fin 100) (Fin 70) ! 17))
         (idealVertex 100 70 2 5)"
proof -
  have "rippedBannerPath (\<lambda>k. Fin 0) (Fin 100) (Fin 70) ! 17
      = jaggedLine (\<lambda>k. Fin 0) (2 + 4 * segmentCount) (Fin 100) (Fin 70) (Fin 0) (Fin 70) ! 4"
    by (simp add: rippedBannerPath_def nth_append length_jaggedLine)
  also have "\<dots> = LineTo
      (numAdd (numAdd (Fin 100) (numMul (numDivBy (numSub (Fin 0) (Fin 100)) 6) (Fin 5)))
              (numMul (numSub (Fin 0) (Fin (1 / 2))) (Fin 8)))
      (numAdd (numAdd (Fin 70) (numMul (numDivBy (numSub (Fin 70) (Fin 70)) 6) (Fin 5)))
              (numMul (numSub (Fin 0) (Fin (1 / 2))) (Fin 8)))"
    by (simp add: jaggedLine_nth del: numAdd.simps numSub.simps numMul.simps numDivBy.simps)
  also have "\<dots> = LineTo (Fin (445668713125205 / 2 ^ 45)) (Fin 66)"
    unfolding half_jitter banner_100_70_steps by (rule refl)
  finally have v: "rippedBannerPath (\<lambda>k. Fin 0) (Fin 100) (Fin 70) ! 17
       = LineTo (Fin (445668713125205 / 2 ^ 45)) (Fin 66)" .
  have i: "idealVertex 100 70 2 5 = (50 / 3, 70)"
    by (simp add: idealVertex_def)
  have n: "\<not> withinDist 4 (Some (Fin (445668713125205 / 2 ^ 45), Fin 66)) (50 / 3, 70)"
    by simp
  from v i n show ?thesis by simp
qed

end
